theory Spec2Isabelle
  imports Main "HOL-Library.Multiset"
begin

section \<open>Values and errors\<close>

text \<open>
  Both programs work on the values that \<open>json.loads\<close> and \<open>json.load\<close> build: \<open>None\<close>,
  booleans, integers, floats, strings, lists and dicts with string keys. A dict is the list
  of its items in insertion order (Python dicts iterate in insertion order and their keys
  are distinct). A Python string is a sequence of code points; the model covers the code
  points below 256, one \<open>char\<close> each. A float is kept as mantissa and binary exponent; the
  code only ever asks whether it is zero.
\<close>

datatype json =
    JNull
  | JBool bool
  | JInt int
  | JFloat int int
  | JStr string
  | JList "json list"
  | JObj "(string \<times> json) list"

text \<open>The exceptions the modelled code can raise.\<close>

datatype error = AttributeError | KeyError | TypeError

text \<open>\<open>d.get(k, default)\<close> on a dict.\<close>

definition dict_get :: "(string \<times> json) list \<Rightarrow> string \<Rightarrow> json \<Rightarrow> json" where
  "dict_get d k dflt = (case map_of d k of Some v \<Rightarrow> v | None \<Rightarrow> dflt)"

section \<open>Text primitives\<close>

text \<open>
  \<open>str.lower()\<close> on code points below 256: the ASCII capitals and the Latin-1 capitals
  \<open>0xC0..0xDE\<close> without the multiplication sign \<open>0xD7\<close> move up by 32.
\<close>

definition upper_chars :: "char list" where
  "upper_chars = ''ABCDEFGHIJKLMNOPQRSTUVWXYZ'' @
     [CHR 0xC0, CHR 0xC1, CHR 0xC2, CHR 0xC3, CHR 0xC4, CHR 0xC5, CHR 0xC6, CHR 0xC7,
      CHR 0xC8, CHR 0xC9, CHR 0xCA, CHR 0xCB, CHR 0xCC, CHR 0xCD, CHR 0xCE, CHR 0xCF,
      CHR 0xD0, CHR 0xD1, CHR 0xD2, CHR 0xD3, CHR 0xD4, CHR 0xD5, CHR 0xD6,
      CHR 0xD8, CHR 0xD9, CHR 0xDA, CHR 0xDB, CHR 0xDC, CHR 0xDD, CHR 0xDE]"

definition lower_chars :: "char list" where
  "lower_chars = ''abcdefghijklmnopqrstuvwxyz'' @
     [CHR 0xE0, CHR 0xE1, CHR 0xE2, CHR 0xE3, CHR 0xE4, CHR 0xE5, CHR 0xE6, CHR 0xE7,
      CHR 0xE8, CHR 0xE9, CHR 0xEA, CHR 0xEB, CHR 0xEC, CHR 0xED, CHR 0xEE, CHR 0xEF,
      CHR 0xF0, CHR 0xF1, CHR 0xF2, CHR 0xF3, CHR 0xF4, CHR 0xF5, CHR 0xF6,
      CHR 0xF8, CHR 0xF9, CHR 0xFA, CHR 0xFB, CHR 0xFC, CHR 0xFD, CHR 0xFE]"

definition lower_char :: "char \<Rightarrow> char" where
  "lower_char c = (case map_of (zip upper_chars lower_chars) c of Some d \<Rightarrow> d | None \<Rightarrow> c)"

definition lower :: "string \<Rightarrow> string" where
  "lower s = map lower_char s"

text \<open>
  The class \<open>\w\<close> of \<open>re\<close> on a \<open>str\<close> pattern: alphanumeric code points and the
  underscore. Below 256 these are the ASCII letters and digits, \<open>_\<close>, the Latin-1 letters,
  the ordinal indicators, the micro sign, and the superscript digits and fractions.
\<close>

definition word_chars :: "char list" where
  "word_chars = ''abcdefghijklmnopqrstuvwxyz0123456789_'' @ upper_chars @
     [CHR 0xE0, CHR 0xE1, CHR 0xE2, CHR 0xE3, CHR 0xE4, CHR 0xE5, CHR 0xE6, CHR 0xE7,
      CHR 0xE8, CHR 0xE9, CHR 0xEA, CHR 0xEB, CHR 0xEC, CHR 0xED, CHR 0xEE, CHR 0xEF,
      CHR 0xF0, CHR 0xF1, CHR 0xF2, CHR 0xF3, CHR 0xF4, CHR 0xF5, CHR 0xF6,
      CHR 0xF8, CHR 0xF9, CHR 0xFA, CHR 0xFB, CHR 0xFC, CHR 0xFD, CHR 0xFE,
      CHR 0xDF, CHR 0xFF, CHR 0xAA, CHR 0xBA, CHR 0xB5,
      CHR 0xB2, CHR 0xB3, CHR 0xB9, CHR 0xBC, CHR 0xBD, CHR 0xBE]"

definition is_word :: "char \<Rightarrow> bool" where
  "is_word c = (c \<in> set word_chars)"

text \<open>
  \<open>occurs_at kw text i\<close>: the literal \<open>kw\<close> stands in \<open>text\<close> at offset \<open>i\<close>.
  \<open>kw in text\<close> is an occurrence at some offset.
\<close>

definition occurs_at :: "string \<Rightarrow> string \<Rightarrow> nat \<Rightarrow> bool" where
  "occurs_at kw text i = (i + length kw \<le> length text \<and> take (length kw) (drop i text) = kw)"

definition is_substring :: "string \<Rightarrow> string \<Rightarrow> bool" where
  "is_substring kw text = list_ex (occurs_at kw text) [0..<Suc (length text)]"

text \<open>
  The assertion \<open>\b\<close> of \<open>re\<close> holds at offset \<open>i\<close> when exactly one of the code points
  before and at \<open>i\<close> is a word character, the string edges counting as non-word.
\<close>

definition word_before :: "string \<Rightarrow> nat \<Rightarrow> bool" where
  "word_before text i = (0 < i \<and> i \<le> length text \<and> is_word (text ! (i - 1)))"

definition word_at :: "string \<Rightarrow> nat \<Rightarrow> bool" where
  "word_at text i = (i < length text \<and> is_word (text ! i))"

definition boundary :: "string \<Rightarrow> nat \<Rightarrow> bool" where
  "boundary text i = (word_before text i \<noteq> word_at text i)"

text \<open>
  \<open>re.search(r'\b' + re.escape(keyword) + r'\b', text)\<close>: \<open>re.escape\<close> makes the keyword
  a literal, so the pattern matches where the keyword occurs with \<open>\b\<close> holding at both of
  its ends.
\<close>

definition re_search_word :: "string \<Rightarrow> string \<Rightarrow> bool" where
  "re_search_word kw text =
     list_ex (\<lambda>i. occurs_at kw text i \<and> boundary text i \<and> boundary text (i + length kw))
       [0..<Suc (length text)]"

text \<open>
  \<open>re.sub(r'^@[^/]+/', '', name)\<close>: without the MULTILINE flag \<open>^\<close> is the start of the
  string, and \<open>[^/]+\<close> takes every code point up to the first slash, at least one.
\<close>

definition strip_org_prefix :: "string \<Rightarrow> string" where
  "strip_org_prefix s =
     (case s of
        [] \<Rightarrow> s
      | c # r \<Rightarrow>
          if c = CHR ''@'' \<and> takeWhile (\<lambda>x. x \<noteq> CHR ''/'') r \<noteq> []
               \<and> dropWhile (\<lambda>x. x \<noteq> CHR ''/'') r \<noteq> []
          then tl (dropWhile (\<lambda>x. x \<noteq> CHR ''/'') r)
          else s)"

text \<open>\<open>' '.join(parts)\<close>.\<close>

fun join_space :: "string list \<Rightarrow> string" where
  "join_space [] = []"
| "join_space [x] = x"
| "join_space (x # y # r) = x @ '' '' @ join_space (y # r)"

section \<open>The analyzer\<close>

text \<open>
  \<open>CategoryInfo\<close>: the keyword set and the packages appended so far. The display fields
  (\<open>name\<close>, \<open>emoji\<close>, \<open>description\<close>) take no part in categorization and are left out. The
  keyword set is kept as the list of its elements; the score below is a sum over it, so
  the order Python iterates the set in does not matter.
\<close>

record category_info =
  keywords' :: "string list"
  packages :: "json list"

text \<open>
  \<open>_extract_text_features\<close>. \<open>.lower()\<close> exists on strings only, so a name, description or
  keyword of another type raises \<open>AttributeError\<close>, as does \<open>.get\<close> on a package that is
  not a dict.
\<close>

definition str_lower :: "json \<Rightarrow> error + string" where
  "str_lower v = (case v of JStr s \<Rightarrow> Inr (lower s) | _ \<Rightarrow> Inl AttributeError)"

fun lower_all :: "json list \<Rightarrow> error + string list" where
  "lower_all [] = Inr []"
| "lower_all (k # ks) =
     (case str_lower k of
        Inl e \<Rightarrow> Inl e
      | Inr s \<Rightarrow> (case lower_all ks of Inl e \<Rightarrow> Inl e | Inr ss \<Rightarrow> Inr (s # ss)))"

definition keyword_parts :: "json \<Rightarrow> error + string list" where
  "keyword_parts kws =
     (case kws of
        JList ks \<Rightarrow> lower_all ks
      | JStr s \<Rightarrow> if s \<noteq> [] then Inr [lower s] else Inr []
      | _ \<Rightarrow> Inr [])"

definition extract_text_features :: "json \<Rightarrow> error + string" where
  "extract_text_features package =
     (case package of
        JObj d \<Rightarrow>
          (case str_lower (dict_get d ''name'' (JStr [])) of
             Inl e \<Rightarrow> Inl e
           | Inr name \<Rightarrow>
               (case str_lower (dict_get d ''description'' (JStr [])) of
                  Inl e \<Rightarrow> Inl e
                | Inr description \<Rightarrow>
                    (case keyword_parts (dict_get d ''keywords'' (JList [])) of
                       Inl e \<Rightarrow> Inl e
                     | Inr ks \<Rightarrow> Inr (join_space ([strip_org_prefix name, description] @ ks)))))
      | _ \<Rightarrow> Inl AttributeError)"

text \<open>
  The scoring loops of \<open>categorize_packages\<close>. The inner loop adds 2 for a keyword the
  word pattern finds, else 1 for a keyword that is a substring; the outer loop keeps the
  best category seen, replacing it only on a strictly greater score.
\<close>

definition keyword_score :: "string \<Rightarrow> string \<Rightarrow> nat" where
  "keyword_score text kw =
     (if re_search_word kw text then 2 else if is_substring kw text then 1 else 0)"

definition category_score :: "string \<Rightarrow> category_info \<Rightarrow> nat" where
  "category_score text category =
     fold (\<lambda>kw score. score + keyword_score text kw) (keywords' category) 0"

definition best_step ::
  "string \<Rightarrow> string \<times> category_info \<Rightarrow> string option \<times> nat \<Rightarrow> string option \<times> nat" where
  "best_step text entry best =
     (if category_score text (snd entry) > snd best
      then (Some (fst entry), category_score text (snd entry))
      else best)"

definition find_best :: "string \<Rightarrow> (string \<times> category_info) list \<Rightarrow> string option \<times> nat" where
  "find_best text categories = fold (best_step text) categories (None, 0)"

text \<open>
  The analyzer's state: the ordered category table and the uncategorized list. One
  iteration of the outer loop of \<open>categorize_packages\<close> appends the package to the best
  category's list and counts it, or appends it to the uncategorized list;
  \<open>self.categories[None]\<close> would be a \<open>KeyError\<close>.
\<close>

record analyzer =
  categories :: "(string \<times> category_info) list"
  uncategorized :: "json list"

definition append_package ::
  "string \<Rightarrow> json \<Rightarrow> (string \<times> category_info) list \<Rightarrow> (string \<times> category_info) list" where
  "append_package cid package cats =
     map (\<lambda>(k, c). if k = cid then (k, c\<lparr>packages := packages c @ [package]\<rparr>) else (k, c)) cats"

definition categorize_one :: "json \<Rightarrow> analyzer \<times> nat \<Rightarrow> error + analyzer \<times> nat" where
  "categorize_one package st =
     (case extract_text_features package of
        Inl e \<Rightarrow> Inl e
      | Inr text_features \<Rightarrow>
          (case find_best text_features (categories (fst st)) of
             (best_category, best_score) \<Rightarrow>
               if best_score \<ge> 1 then
                 (case best_category of
                    None \<Rightarrow> Inl KeyError
                  | Some cid \<Rightarrow>
                      Inr ((fst st)\<lparr>categories := append_package cid package (categories (fst st))\<rparr>,
                           snd st + 1))
               else Inr ((fst st)\<lparr>uncategorized := uncategorized (fst st) @ [package]\<rparr>, snd st)))"

fun categorize_loop :: "json list \<Rightarrow> analyzer \<times> nat \<Rightarrow> error + analyzer \<times> nat" where
  "categorize_loop [] st = Inr st"
| "categorize_loop (p # ps) st =
     (case categorize_one p st of Inl e \<Rightarrow> Inl e | Inr st' \<Rightarrow> categorize_loop ps st')"

text \<open>
  \<open>categorize_packages\<close> on the package list loaded before: the count starts at 0; the
  result is the new state and the count that the method logs.
\<close>

definition categorize_packages :: "json list \<Rightarrow> analyzer \<Rightarrow> error + analyzer \<times> nat" where
  "categorize_packages pkgs a = categorize_loop pkgs (a, 0)"

text \<open>
  \<open>_define_categories\<close>: the category table, in the order the dict literal lists it;
  every category starts with an empty package list.
\<close>

definition define_categories :: "(string \<times> category_info) list" where
  "define_categories =
    [(''testing'', \<lparr>keywords' =
        [''test'', ''testing'', ''unit'', ''automation'', ''qa'', ''quality'', ''mock'',
         ''assertion'', ''hypium'', ''spec'', ''suite''],
      packages = []\<rparr>),
     (''ui_components'', \<lparr>keywords' =
        [''ui'', ''component'', ''design'', ''layout'', ''button'', ''dialog'', ''picker'',
         ''navigation'', ''tab'', ''grid'', ''list'', ''card'', ''menu'', ''banner'',
         ''toast'', ''loading'', ''refresh'', ''swipe'', ''slider'', ''input'', ''form'',
         ''calendar'', ''chart'', ''graph'', ''visual'', ''theme'', ''style'', ''animation'',
         ''transition'', ''gesture''],
      packages = []\<rparr>),
     (''utilities'', \<lparr>keywords' =
        [''util'', ''tool'', ''helper'', ''library'', ''common'', ''encrypt'', ''decrypt'',
         ''hash'', ''string'', ''date'', ''time'', ''regex'', ''validation'', ''format'',
         ''convert'', ''parse'', ''math'', ''algorithm'', ''collection'', ''array'',
         ''object'', ''json'', ''xml'', ''csv'', ''log'', ''debug'', ''performance'',
         ''cache'', ''storage'', ''file'', ''io''],
      packages = []\<rparr>),
     (''networking'', \<lparr>keywords' =
        [''http'', ''api'', ''request'', ''axios'', ''fetch'', ''network'', ''rest'',
         ''graphql'', ''websocket'', ''rpc'', ''grpc'', ''client'', ''server'', ''protocol'',
         ''communication'', ''socket'', ''tcp'', ''udp'', ''url'', ''endpoint'', ''oauth'',
         ''auth'', ''jwt''],
      packages = []\<rparr>),
     (''data_persistence'', \<lparr>keywords' =
        [''database'', ''db'', ''storage'', ''persistence'', ''sqlite'', ''sql'', ''orm'',
         ''model'', ''schema'', ''migration'', ''backup'', ''sync'', ''crud'', ''query'',
         ''transaction'', ''cache'', ''memory'', ''local'', ''cloud'', ''preference'',
         ''setting'', ''config''],
      packages = []\<rparr>),
     (''media'', \<lparr>keywords' =
        [''media'', ''audio'', ''video'', ''image'', ''photo'', ''camera'', ''player'',
         ''recorder'', ''music'', ''sound'', ''voice'', ''multimedia'', ''codec'',
         ''format'', ''stream'', ''play'', ''capture'', ''edit'', ''filter'', ''effect'',
         ''compress'', ''decode'', ''encode''],
      packages = []\<rparr>),
     (''location_maps'', \<lparr>keywords' =
        [''location'', ''gps'', ''map'', ''navigation'', ''geo'', ''latitude'',
         ''longitude'', ''position'', ''coordinate'', ''route'', ''direction'', ''distance'',
         ''address'', ''place'', ''marker'', ''pin''],
      packages = []\<rparr>),
     (''sensors_hardware'', \<lparr>keywords' =
        [''sensor'', ''hardware'', ''accelerometer'', ''gyroscope'', ''compass'',
         ''barometer'', ''fingerprint'', ''biometric'', ''nfc'', ''bluetooth'', ''wifi'',
         ''cellular'', ''battery'', ''vibration'', ''light'', ''proximity'', ''temperature'',
         ''pressure'', ''device'', ''system'', ''capability''],
      packages = []\<rparr>),
     (''security'', \<lparr>keywords' =
        [''security'', ''encrypt'', ''decrypt'', ''cipher'', ''crypto'', ''hash'', ''hmac'',
         ''sha'', ''md5'', ''aes'', ''rsa'', ''ssl'', ''tls'', ''certificate'', ''key'',
         ''auth'', ''authentication'', ''authorization'', ''oauth'', ''jwt'', ''token'',
         ''password'', ''biometric'', ''privacy'', ''secure''],
      packages = []\<rparr>),
     (''navigation_routing'', \<lparr>keywords' =
        [''navigation'', ''router'', ''route'', ''nav'', ''page'', ''screen'',
         ''transition'', ''stack'', ''tab'', ''drawer'', ''bottom'', ''sidebar'',
         ''breadcrumb'', ''history'', ''back'', ''forward'', ''deep'', ''link''],
      packages = []\<rparr>),
     (''state_management'', \<lparr>keywords' =
        [''state'', ''store'', ''redux'', ''flux'', ''observable'', ''reactive'', ''model'',
         ''data'', ''flow'', ''context'', ''provider'', ''inject'', ''dependency'',
         ''service'', ''singleton'', ''manager''],
      packages = []\<rparr>),
     (''internationalization'', \<lparr>keywords' =
        [''i18n'', ''l10n'', ''international'', ''localization'', ''locale'', ''language'',
         ''translation'', ''translate'', ''multilingual'', ''region'', ''country'',
         ''currency'', ''timezone'', ''format'', ''culture''],
      packages = []\<rparr>),
     (''animation'', \<lparr>keywords' =
        [''animation'', ''animate'', ''transition'', ''effect'', ''motion'', ''tween'',
         ''spring'', ''easing'', ''interpolation'', ''keyframe'', ''timeline'',
         ''transform'', ''scale'', ''rotate'', ''fade'', ''slide'', ''bounce'', ''elastic'',
         ''cubic'', ''bezier''],
      packages = []\<rparr>),
     (''game_graphics'', \<lparr>keywords' =
        [''game'', ''gaming'', ''3d'', ''2d'', ''graphics'', ''render'', ''canvas'',
         ''webgl'', ''opengl'', ''shader'', ''texture'', ''mesh'', ''scene'', ''physics'',
         ''collision'', ''engine'', ''sprite'', ''particle'', ''lighting'', ''material''],
      packages = []\<rparr>),
     (''social_sharing'', \<lparr>keywords' =
        [''social'', ''share'', ''sharing'', ''wechat'', ''weibo'', ''qq'', ''facebook'',
         ''twitter'', ''instagram'', ''linkedin'', ''whatsapp'', ''telegram'', ''discord'',
         ''chat'', ''message'', ''comment'', ''like'', ''follow'', ''friend''],
      packages = []\<rparr>),
     (''ecommerce_payment'', \<lparr>keywords' =
        [''payment'', ''pay'', ''alipay'', ''wechatpay'', ''bank'', ''card'', ''wallet'',
         ''money'', ''currency'', ''price'', ''order'', ''cart'', ''shop'', ''store'',
         ''product'', ''checkout'', ''invoice'', ''receipt'', ''transaction'', ''finance'',
         ''billing''],
      packages = []\<rparr>),
     (''ar_vr'', \<lparr>keywords' =
        [''ar'', ''vr'', ''augmented'', ''virtual'', ''reality'', ''immersive'', ''360'',
         ''panorama'', ''spatial'', ''tracking'', ''marker'', ''recognition'', ''overlay'',
         ''hologram'', ''mixed''],
      packages = []\<rparr>),
     (''ai_ml'', \<lparr>keywords' =
        [''ai'', ''ml'', ''machine'', ''learning'', ''neural'', ''network'', ''deep'',
         ''model'', ''prediction'', ''classification'', ''recognition'', ''detection'',
         ''ocr'', ''nlp'', ''computer'', ''vision'', ''tensorflow'', ''pytorch'', ''opencv'',
         ''intelligent'', ''smart'', ''algorithm''],
      packages = []\<rparr>),
     (''iot'', \<lparr>keywords' =
        [''iot'', ''smart'', ''home'', ''device'', ''connected'', ''sensor'', ''automation'',
         ''control'', ''monitor'', ''remote'', ''wireless'', ''protocol'', ''gateway'',
         ''hub'', ''cloud'', ''edge'', ''mesh'', ''zigbee'', ''mqtt''],
      packages = []\<rparr>),
     (''productivity'', \<lparr>keywords' =
        [''productivity'', ''business'', ''enterprise'', ''office'', ''document'', ''pdf'',
         ''excel'', ''word'', ''presentation'', ''calendar'', ''schedule'', ''task'',
         ''project'', ''workflow'', ''crm'', ''erp'', ''report'', ''analytics'',
         ''dashboard'', ''chart'', ''graph'', ''statistics''],
      packages = []\<rparr>),
     (''education'', \<lparr>keywords' =
        [''education'', ''learning'', ''study'', ''course'', ''lesson'', ''tutorial'',
         ''quiz'', ''exam'', ''test'', ''grade'', ''student'', ''teacher'', ''school'',
         ''university'', ''academic'', ''knowledge'', ''skill'', ''training'',
         ''certification''],
      packages = []\<rparr>),
     (''health_fitness'', \<lparr>keywords' =
        [''health'', ''fitness'', ''medical'', ''wellness'', ''exercise'', ''workout'',
         ''sport'', ''heart'', ''rate'', ''step'', ''calorie'', ''sleep'', ''weight'',
         ''bmi'', ''nutrition'', ''diet'', ''medicine'', ''hospital'', ''doctor'',
         ''patient'', ''therapy''],
      packages = []\<rparr>),
     (''communication'', \<lparr>keywords' =
        [''chat'', ''message'', ''messaging'', ''communication'', ''call'', ''voice'',
         ''video'', ''conference'', ''meeting'', ''talk'', ''conversation'',
         ''notification'', ''push'', ''email'', ''sms'', ''im'', ''instant''],
      packages = []\<rparr>)]"

text \<open>
  The spec's notion of a whole-word occurrence: the keyword stands in the text with a
  non-word character or a string edge on each side.
\<close>

definition whole_word_at :: "string \<Rightarrow> string \<Rightarrow> nat \<Rightarrow> bool" where
  "whole_word_at kw text i =
     (occurs_at kw text i
      \<and> (i = 0 \<or> \<not> is_word (text ! (i - 1)))
      \<and> (i + length kw = length text \<or> \<not> is_word (text ! (i + length kw))))"

definition spec_whole_word :: "string \<Rightarrow> string \<Rightarrow> bool" where
  "spec_whole_word kw text = list_ex (whole_word_at kw text) [0..<Suc (length text)]"

definition spec_keyword_score :: "string \<Rightarrow> string \<Rightarrow> nat" where
  "spec_keyword_score text kw =
     (if spec_whole_word kw text then 2 else if is_substring kw text then 1 else 0)"

section \<open>The crawler\<close>

text \<open>
  The dataclass \<open>Package\<close>. A dataclass does not check its annotations, so each field
  holds whatever value the registry sent.
\<close>

record package =
  name :: json
  description :: json
  org :: json
  packageType :: json
  latestVersion :: json
  latestPublishTime :: json
  license :: json
  authorName :: json
  publisherId :: json
  publisherName :: json
  authorPicUrl :: json
  likes :: json
  points :: json
  popularity :: json

text \<open>Truth value, \<open>len\<close>, \<open>in\<close>, subscript by a string and iteration, as Python defines them.\<close>

fun truthy :: "json \<Rightarrow> bool" where
  "truthy JNull = False"
| "truthy (JBool b) = b"
| "truthy (JInt i) = (i \<noteq> 0)"
| "truthy (JFloat m e) = (m \<noteq> 0)"
| "truthy (JStr s) = (s \<noteq> [])"
| "truthy (JList xs) = (xs \<noteq> [])"
| "truthy (JObj d) = (d \<noteq> [])"

fun py_len :: "json \<Rightarrow> error + nat" where
  "py_len (JStr s) = Inr (length s)"
| "py_len (JList xs) = Inr (length xs)"
| "py_len (JObj d) = Inr (length d)"
| "py_len _ = Inl TypeError"

fun py_contains :: "string \<Rightarrow> json \<Rightarrow> error + bool" where
  "py_contains k (JObj d) = Inr (map_of d k \<noteq> None)"
| "py_contains k (JList xs) = Inr (JStr k \<in> set xs)"
| "py_contains k (JStr s) = Inr (is_substring k s)"
| "py_contains k _ = Inl TypeError"

fun py_getitem :: "json \<Rightarrow> string \<Rightarrow> error + json" where
  "py_getitem (JObj d) k = (case map_of d k of None \<Rightarrow> Inl KeyError | Some v \<Rightarrow> Inr v)"
| "py_getitem _ k = Inl TypeError"

fun py_iter :: "json \<Rightarrow> error + json list" where
  "py_iter (JList xs) = Inr xs"
| "py_iter (JStr s) = Inr (map (\<lambda>c. JStr [c]) s)"
| "py_iter (JObj d) = Inr (map (\<lambda>kv. JStr (fst kv)) d)"
| "py_iter _ = Inl TypeError"

text \<open>
  What one request meets: \<open>session.get\<close> or \<open>response.text()\<close> raises (connection error,
  timeout), or a response arrives with a status and a text that \<open>json.loads\<close> parses
  (\<open>Some\<close>) or rejects (\<open>None\<close>). The registry is a function from the page number and
  page size of a request to its outcome; a run requests each page once.
\<close>

datatype http_outcome = Raised | Responded int "json option"

text \<open>
  The logging statements of \<open>fetch_page\<close> inspect the parsed data and can raise; the
  outer \<open>except Exception\<close> then turns the page into \<open>{}\<close>. \<open>log_structure\<close> is the
  block after \<open>json.loads\<close>, \<open>log_fetched\<close> the last logging line.
\<close>

definition first_row_keys :: "json \<Rightarrow> error + unit" where
  "first_row_keys rows =
     (case rows of
        JList (JObj r # rest) \<Rightarrow> Inr ()
      | JList xs \<Rightarrow> Inl AttributeError
      | JStr s \<Rightarrow> Inl AttributeError
      | JObj d \<Rightarrow> Inl KeyError
      | _ \<Rightarrow> Inl TypeError)"

definition log_structure :: "json \<Rightarrow> error + unit" where
  "log_structure data =
     (case data of
        JObj d \<Rightarrow>
          (case map_of d ''body'' of
             Some (JObj body) \<Rightarrow>
               (case map_of body ''rows'' of
                  Some rows \<Rightarrow>
                    (case py_len rows of
                       Inl e \<Rightarrow> Inl e
                     | Inr n \<Rightarrow> if n > 0 then first_row_keys rows else Inr ())
                | None \<Rightarrow> Inr ())
           | _ \<Rightarrow> Inr ())
      | _ \<Rightarrow> Inr ())"

definition log_fetched :: "json \<Rightarrow> error + unit" where
  "log_fetched data =
     (case data of
        JObj d \<Rightarrow>
          (case dict_get d ''body'' (JObj []) of
             JObj body \<Rightarrow>
               (case py_len (dict_get body ''rows'' (JList [])) of
                  Inl e \<Rightarrow> Inl e
                | Inr n \<Rightarrow> Inr ())
           | _ \<Rightarrow> Inl AttributeError)
      | _ \<Rightarrow> Inl AttributeError)"

text \<open>
  \<open>fetch_page\<close> returns the parsed dict, or the empty dict \<open>{}\<close> on a raised request, a
  status other than 200, a text that does not parse, or an exception in the logging.
\<close>

definition fetch_page :: "(int \<Rightarrow> int \<Rightarrow> http_outcome) \<Rightarrow> int \<Rightarrow> int \<Rightarrow> (string \<times> json) list" where
  "fetch_page net page_num page_size =
     (case net page_num page_size of
        Raised \<Rightarrow> []
      | Responded status parsed \<Rightarrow>
          if status \<noteq> 200 then []
          else
            (case parsed of
               None \<Rightarrow> []
             | Some data \<Rightarrow>
                 (case log_structure data of
                    Inl e \<Rightarrow> []
                  | Inr u \<Rightarrow>
                      (case log_fetched data of
                         Inl e \<Rightarrow> []
                       | Inr u' \<Rightarrow> (case data of JObj d \<Rightarrow> d | _ \<Rightarrow> [])))))"

text \<open>
  \<open>_process_page_data\<close>. Building a \<open>Package\<close> calls \<open>.get\<close> on the row, which only a
  dict has; the \<open>AttributeError\<close> of any other row is caught, logged as a warning, and the
  loop goes on. The function takes \<open>self.packages\<close> and returns it extended.
\<close>

definition make_package :: "json \<Rightarrow> package option" where
  "make_package pkg_data =
     (case pkg_data of
        JObj d \<Rightarrow>
          Some \<lparr>name = dict_get d ''name'' (JStr []),
                description = dict_get d ''description'' (JStr []),
                org = dict_get d ''org'' (JStr []),
                packageType = dict_get d ''packageType'' (JStr []),
                latestVersion = dict_get d ''latestVersion'' (JStr []),
                latestPublishTime = dict_get d ''latestPublishTime'' (JInt 0),
                license = dict_get d ''license'' (JStr []),
                authorName = dict_get d ''authorName'' (JStr []),
                publisherId = dict_get d ''publisherId'' (JStr []),
                publisherName = dict_get d ''publisherName'' (JStr []),
                authorPicUrl = dict_get d ''authorPicUrl'' (JStr []),
                likes = dict_get d ''likes'' (JInt 0),
                points = dict_get d ''points'' (JInt 0),
                popularity = dict_get d ''popularity'' (JInt 0)\<rparr>
      | _ \<Rightarrow> None)"

fun append_rows :: "json list \<Rightarrow> package list \<Rightarrow> package list" where
  "append_rows [] pkgs = pkgs"
| "append_rows (pkg_data # rest) pkgs =
     (case make_package pkg_data of
        Some p \<Rightarrow> append_rows rest (pkgs @ [p])
      | None \<Rightarrow> append_rows rest pkgs)"

definition process_page_data :: "json \<Rightarrow> package list \<Rightarrow> error + package list" where
  "process_page_data page_data pkgs =
     (if \<not> truthy page_data then Inr pkgs
      else
        (case py_contains ''rows'' page_data of
           Inl e \<Rightarrow> Inl e
         | Inr False \<Rightarrow> Inr pkgs
         | Inr True \<Rightarrow>
             (case py_getitem page_data ''rows'' of
                Inl e \<Rightarrow> Inl e
              | Inr rows \<Rightarrow>
                  (case py_iter rows of
                     Inl e \<Rightarrow> Inl e
                   | Inr items \<Rightarrow> Inr (append_rows items pkgs)))))"

text \<open>
  \<open>fetch_all_packages\<close>. \<open>range(2, total_pages + 1)\<close> needs an integer (a bool counts
  as 0 or 1). Every task is a \<open>fetch_page\<close>, which catches its exceptions, and
  \<open>asyncio.gather\<close> returns the results in task order, so the results are the pages
  \<open>2..total_pages\<close> in order; cancellation of a task is outside the model. The function
  takes \<open>self.packages\<close> and yields the returned list together with the final
  \<open>self.packages\<close>.
\<close>

fun page_range :: "json \<Rightarrow> error + int list" where
  "page_range (JInt n) = Inr [2..n]"
| "page_range (JBool b) = Inr [2..(if b then 1 else 0)]"
| "page_range _ = Inl TypeError"

definition process_result :: "(string \<times> json) list \<Rightarrow> package list \<Rightarrow> error + package list" where
  "process_result result pkgs =
     (if result \<noteq> [] \<and> map_of result ''body'' \<noteq> None then
        (case py_getitem (JObj result) ''body'' of
           Inl e \<Rightarrow> Inl e
         | Inr body \<Rightarrow> process_page_data body pkgs)
      else Inr pkgs)"

fun process_results :: "(string \<times> json) list list \<Rightarrow> package list \<Rightarrow> error + package list" where
  "process_results [] pkgs = Inr pkgs"
| "process_results (result # rest) pkgs =
     (case process_result result pkgs of
        Inl e \<Rightarrow> Inl e
      | Inr pkgs' \<Rightarrow> process_results rest pkgs')"

definition fetch_all_packages ::
  "(int \<Rightarrow> int \<Rightarrow> http_outcome) \<Rightarrow> package list \<Rightarrow> error + package list \<times> package list" where
  "fetch_all_packages net pkgs0 =
     (let first_page = fetch_page net 1 50 in
      if first_page = [] then Inr ([], pkgs0)
      else
        (case map_of first_page ''body'' of
           None \<Rightarrow> Inr ([], pkgs0)
         | Some body_data \<Rightarrow>
             if \<not> truthy body_data then Inr ([], pkgs0)
             else
               (case py_contains ''pages'' body_data of
                  Inl e \<Rightarrow> Inl e
                | Inr False \<Rightarrow> Inr ([], pkgs0)
                | Inr True \<Rightarrow>
                    (case py_getitem body_data ''pages'' of
                       Inl e \<Rightarrow> Inl e
                     | Inr total_pages \<Rightarrow>
                         (case py_getitem body_data ''total'' of
                            Inl e \<Rightarrow> Inl e
                          | Inr total_packages \<Rightarrow>
                              (case process_page_data body_data pkgs0 of
                                 Inl e \<Rightarrow> Inl e
                               | Inr pkgs1 \<Rightarrow>
                                   (case page_range total_pages of
                                      Inl e \<Rightarrow> Inl e
                                    | Inr pages \<Rightarrow>
                                        (case process_results
                                                (map (\<lambda>p. fetch_page net p 50) pages) pkgs1 of
                                           Inl e \<Rightarrow> Inl e
                                         | Inr pkgs2 \<Rightarrow> Inr (pkgs2, pkgs2)))))))))"

text \<open>
  The rows of a fetched page: the list under \<open>rows\<close> in the page's \<open>body\<close>; a failed
  page, the empty dict, has none.
\<close>

definition page_rows :: "(string \<times> json) list \<Rightarrow> json list" where
  "page_rows result =
     (case map_of result ''body'' of
        Some (JObj body) \<Rightarrow> (case map_of body ''rows'' of Some (JList rows) \<Rightarrow> rows | _ \<Rightarrow> [])
      | _ \<Rightarrow> [])"

text \<open>
  Registries used as concrete inputs below: one that answers every request with status
  500, one whose every request times out, and two that serve a first page announcing two
  pages, after which the second page times out in the one and arrives with no rows in
  the other.
\<close>

definition registry_status_500 :: "int \<Rightarrow> int \<Rightarrow> http_outcome" where
  "registry_status_500 page_num page_size = Responded 500 (Some (JStr ''Internal Server Error''))"

definition registry_timeout :: "int \<Rightarrow> int \<Rightarrow> http_outcome" where
  "registry_timeout page_num page_size = Raised"

definition first_of_two :: json where
  "first_of_two =
     JObj [(''body'', JObj [(''pages'', JInt 2), (''total'', JInt 1),
                            (''rows'', JList [JObj [(''name'', JStr ''a'')]])])]"

definition registry_second_times_out :: "int \<Rightarrow> int \<Rightarrow> http_outcome" where
  "registry_second_times_out page_num page_size =
     (if page_num = 1 then Responded 200 (Some first_of_two) else Raised)"

definition registry_second_empty :: "int \<Rightarrow> int \<Rightarrow> http_outcome" where
  "registry_second_empty page_num page_size =
     (if page_num = 1 then Responded 200 (Some first_of_two)
      else Responded 200
             (Some (JObj [(''body'', JObj [(''pages'', JInt 2), (''total'', JInt 1),
                                           (''rows'', JList [])])])))"

text \<open>All packages that sit in some category's list, category after category.\<close>

definition categorized :: "analyzer \<Rightarrow> json list" where
  "categorized a = concat (map (\<lambda>e. packages (snd e)) (categories a))"

section \<open>The best-category loop\<close>

lemma find_best_snoc: "find_best t (cats @ [e]) = best_step t e (find_best t cats)"
  by (simp add: find_best_def)

lemma best_step_cases:
  "best_step t e b = (if snd b < category_score t (snd e) then (Some (fst e), category_score t (snd e)) else b)"
  by (simp add: best_step_def)

lemma find_best_None:
  "fst (find_best t cats) = None \<Longrightarrow>
     snd (find_best t cats) = 0 \<and> (\<forall>e \<in> set cats. category_score t (snd e) = 0)"
proof (induction cats rule: rev_induct)
  case Nil
  then show ?case by (simp add: find_best_def)
next
  case (snoc e cats)
  show ?case
  proof (cases "snd (find_best t cats) < category_score t (snd e)")
    case True
    with snoc.prems show ?thesis by (simp add: find_best_snoc best_step_cases)
  next
    case False
    then have fb: "find_best t (cats @ [e]) = find_best t cats"
      by (simp add: find_best_snoc best_step_cases)
    with snoc.prems snoc.IH have "snd (find_best t cats) = 0 \<and> (\<forall>e \<in> set cats. category_score t (snd e) = 0)"
      by simp
    with False fb show ?thesis by simp
  qed
qed

lemma find_best_upper:
  "e \<in> set cats \<Longrightarrow> category_score t (snd e) \<le> snd (find_best t cats)"
proof (induction cats rule: rev_induct)
  case Nil
  then show ?case by simp
next
  case (snoc x cats)
  show ?case
  proof (cases "snd (find_best t cats) < category_score t (snd x)")
    case True
    then have fb: "snd (find_best t (cats @ [x])) = category_score t (snd x)"
      by (simp add: find_best_snoc best_step_cases)
    from snoc.prems have "e = x \<or> e \<in> set cats" by auto
    then show ?thesis
    proof
      assume "e = x" with fb show ?thesis by simp
    next
      assume "e \<in> set cats"
      from snoc.IH[OF this] True fb show ?thesis by simp
    qed
  next
    case False
    then have fb: "find_best t (cats @ [x]) = find_best t cats"
      by (simp add: find_best_snoc best_step_cases)
    from snoc.prems have "e = x \<or> e \<in> set cats" by auto
    then show ?thesis
    proof
      assume "e = x" with fb False show ?thesis by simp
    next
      assume "e \<in> set cats"
      from snoc.IH[OF this] fb show ?thesis by simp
    qed
  qed
qed


lemma find_best_Some:
  "fst (find_best t cats) = Some cid \<Longrightarrow>
     1 \<le> snd (find_best t cats) \<and>
     (\<exists>pre cat post. cats = pre @ (cid, cat) # post
        \<and> category_score t cat = snd (find_best t cats)
        \<and> (\<forall>e \<in> set pre. category_score t (snd e) < snd (find_best t cats))
        \<and> (\<forall>e \<in> set post. category_score t (snd e) \<le> snd (find_best t cats)))"
proof (induction cats rule: rev_induct)
  case Nil
  then show ?case by (simp add: find_best_def)
next
  case (snoc e cats)
  let ?b = "find_best t cats"
  let ?s = "category_score t (snd e)"
  show ?case
  proof (cases "snd ?b < ?s")
    case True
    then have fb: "find_best t (cats @ [e]) = (Some (fst e), ?s)"
      by (simp add: find_best_snoc best_step_cases)
    with snoc.prems have cid: "cid = fst e" by simp
    have below: "\<forall>x \<in> set cats. category_score t (snd x) < ?s"
    proof
      fix x assume "x \<in> set cats"
      from find_best_upper[OF this, of t] True show "category_score t (snd x) < ?s" by simp
    qed
    have split: "cats @ [e] = cats @ (cid, snd e) # []" using cid by simp
    have "\<forall>x \<in> set ([]::(string \<times> category_info) list). category_score t (snd x) \<le> ?s" by simp
    with split below have
      "\<exists>pre cat post. cats @ [e] = pre @ (cid, cat) # post \<and> category_score t cat = ?s
         \<and> (\<forall>x \<in> set pre. category_score t (snd x) < ?s)
         \<and> (\<forall>x \<in> set post. category_score t (snd x) \<le> ?s)"
      by blast
    moreover from True have "1 \<le> ?s" by simp
    ultimately show ?thesis unfolding fb by simp
  next
    case False
    then have fb: "find_best t (cats @ [e]) = ?b"
      by (simp add: find_best_snoc best_step_cases)
    with snoc.prems have "fst ?b = Some cid" by simp
    from snoc.IH[OF this] obtain pre cat post where
      *: "1 \<le> snd ?b" "cats = pre @ (cid, cat) # post" "category_score t cat = snd ?b"
         "\<forall>x \<in> set pre. category_score t (snd x) < snd ?b"
         "\<forall>x \<in> set post. category_score t (snd x) \<le> snd ?b"
      by blast
    from *(2) have split: "cats @ [e] = pre @ (cid, cat) # (post @ [e])" by simp
    from *(5) False have "\<forall>x \<in> set (post @ [e]). category_score t (snd x) \<le> snd ?b"
      by auto
    with split *(3,4) have
      "\<exists>pre cat post. cats @ [e] = pre @ (cid, cat) # post \<and> category_score t cat = snd ?b
         \<and> (\<forall>x \<in> set pre. category_score t (snd x) < snd ?b)
         \<and> (\<forall>x \<in> set post. category_score t (snd x) \<le> snd ?b)"
      by blast
    with *(1) show ?thesis unfolding fb by simp
  qed
qed

lemma find_best_zero:
  assumes "\<forall>e \<in> set cats. category_score t (snd e) = 0"
  shows "find_best t cats = (None, 0)"
proof (cases "fst (find_best t cats)")
  case None
  from find_best_None[OF None] None show ?thesis by (simp add: prod_eq_iff)
next
  case (Some cid)
  from find_best_Some[OF Some] obtain pre cat post where
    "1 \<le> snd (find_best t cats)" "cats = pre @ (cid, cat) # post"
    "category_score t cat = snd (find_best t cats)"
    by blast
  with assms show ?thesis by auto
qed

lemma find_best_positive:
  assumes "e \<in> set cats" "1 \<le> category_score t (snd e)"
  shows "\<exists>cid. cid \<in> fst ` set cats \<and> fst (find_best t cats) = Some cid \<and> 1 \<le> snd (find_best t cats)"
proof -
  from find_best_upper[OF assms(1), of t] assms(2) have pos: "1 \<le> snd (find_best t cats)"
    by linarith
  show ?thesis
  proof (cases "fst (find_best t cats)")
    case None
    from find_best_None[OF None] pos show ?thesis by simp
  next
    case (Some cid)
    from find_best_Some[OF Some] obtain pre cat post where "cats = pre @ (cid, cat) # post"
      by blast
    then have "cid \<in> fst ` set cats" by force
    with Some pos show ?thesis by blast
  qed
qed

lemma categorize_one_uncategorized:
  assumes "extract_text_features p = Inr t"
    and "\<forall>e \<in> set (categories a). category_score t (snd e) = 0"
  shows "categorize_one p (a, n) = Inr (a\<lparr>uncategorized := uncategorized a @ [p]\<rparr>, n)"
  using assms(1) find_best_zero[OF assms(2)] by (simp add: categorize_one_def)

lemma categorize_one_assigned:
  assumes "extract_text_features p = Inr t"
    and "e \<in> set (categories a)" "1 \<le> category_score t (snd e)"
  shows "\<exists>cid. cid \<in> fst ` set (categories a) \<and> fst (find_best t (categories a)) = Some cid \<and>
           categorize_one p (a, n) =
             Inr (a\<lparr>categories := append_package cid p (categories a)\<rparr>, n + 1)"
proof -
  from find_best_positive[OF assms(2,3)] obtain cid where
    c: "cid \<in> fst ` set (categories a)" "fst (find_best t (categories a)) = Some cid"
       "1 \<le> snd (find_best t (categories a))"
    by blast
  then obtain s where fb: "find_best t (categories a) = (Some cid, s)" and s: "1 \<le> s"
    by (cases "find_best t (categories a)") auto
  from assms(1) s have "categorize_one p (a, n) =
             Inr (a\<lparr>categories := append_package cid p (categories a)\<rparr>, n + 1)"
    by (simp add: categorize_one_def fb)
  with c show ?thesis by blast
qed

section \<open>The word pattern and the score\<close>

lemma occurs_at_first:
  assumes "occurs_at kw t i" "kw \<noteq> []"
  shows "i < length t \<and> t ! i = hd kw"
proof -
  from assms have len: "i + length kw \<le> length t" and eq: "take (length kw) (drop i t) = kw"
    by (simp_all add: occurs_at_def)
  from assms(2) have pos: "0 < length kw" by simp
  with len have il: "i < length t" by linarith
  have "hd kw = hd (take (length kw) (drop i t))" using eq by simp
  also have "\<dots> = hd (drop i t)" using pos by (cases "drop i t") (auto simp: take_Suc_conv_app_nth)
  also have "\<dots> = t ! i" using il by (simp add: hd_drop_conv_nth)
  finally show ?thesis using il by simp
qed

lemma occurs_at_last:
  assumes "occurs_at kw t i" "kw \<noteq> []"
  shows "0 < i + length kw \<and> i + length kw \<le> length t \<and> t ! (i + length kw - 1) = last kw"
proof -
  from assms have len: "i + length kw \<le> length t" and eq: "take (length kw) (drop i t) = kw"
    by (simp_all add: occurs_at_def)
  from assms(2) have pos: "0 < length kw" by simp
  have "last kw = kw ! (length kw - 1)" using assms(2) by (simp add: last_conv_nth)
  also have "\<dots> = (take (length kw) (drop i t)) ! (length kw - 1)" using eq by simp
  also have "\<dots> = (drop i t) ! (length kw - 1)" using pos by simp
  also have "\<dots> = t ! (i + (length kw - 1))" using len by simp
  also have "i + (length kw - 1) = i + length kw - 1" using pos by arith
  finally show ?thesis using len pos by simp
qed

lemma word_pattern_at:
  assumes "kw \<noteq> []" "is_word (hd kw)" "is_word (last kw)"
  shows "(occurs_at kw t i \<and> boundary t i \<and> boundary t (i + length kw)) = whole_word_at kw t i"
proof (cases "occurs_at kw t i")
  case False
  then show ?thesis by (simp add: whole_word_at_def)
next
  case True
  from occurs_at_first[OF True assms(1)] assms(2)
  have il: "i < length t" and wa: "word_at t i" by (simp_all add: word_at_def)
  from occurs_at_last[OF True assms(1)] assms(3)
  have jl: "i + length kw \<le> length t" and wb: "word_before t (i + length kw)"
    by (simp_all add: word_before_def)
  have b1: "boundary t i = (i = 0 \<or> \<not> is_word (t ! (i - 1)))"
    using wa il by (auto simp: boundary_def word_before_def)
  have b2: "boundary t (i + length kw) =
      (i + length kw = length t \<or> \<not> is_word (t ! (i + length kw)))"
    using wb jl by (auto simp: boundary_def word_at_def)
  show ?thesis using True b1 b2 by (simp add: whole_word_at_def)
qed

lemma re_search_word_spec:
  assumes "kw \<noteq> []" "is_word (hd kw)" "is_word (last kw)"
  shows "re_search_word kw t = spec_whole_word kw t"
  unfolding re_search_word_def spec_whole_word_def
  by (simp add: word_pattern_at[OF assms])

lemma fold_score_acc:
  "fold (\<lambda>kw score. score + f kw) kws (acc::nat) = acc + sum_list (map f kws)"
  by (induction kws arbitrary: acc) (simp_all add: add.assoc)

lemma category_score_sum_list:
  "category_score t c = sum_list (map (keyword_score t) (keywords' c))"
  by (simp add: category_score_def fold_score_acc)

lemma category_score_spec:
  assumes "distinct (keywords' c)"
    and "\<forall>kw \<in> set (keywords' c). kw \<noteq> [] \<and> is_word (hd kw) \<and> is_word (last kw)"
  shows "category_score t c = (\<Sum>kw \<in> set (keywords' c). spec_keyword_score t kw)"
proof -
  have "map (keyword_score t) (keywords' c) = map (spec_keyword_score t) (keywords' c)"
    using assms(2) by (simp add: keyword_score_def spec_keyword_score_def re_search_word_spec)
  then have "category_score t c = sum_list (map (spec_keyword_score t) (keywords' c))"
    by (simp only: category_score_sum_list)
  also have "\<dots> = (\<Sum>kw \<in> set (keywords' c). spec_keyword_score t kw)"
    using assms(1) by (simp add: sum_list_distinct_conv_sum_set)
  finally show ?thesis .
qed

lemma catalog_keywords_wordlike:
  "list_all (\<lambda>e. distinct (keywords' (snd e)) \<and>
      list_all (\<lambda>kw. kw \<noteq> [] \<and> is_word (hd kw) \<and> is_word (last kw)) (keywords' (snd e)))
     define_categories"
  by code_simp

lemma catalog_keys_distinct: "distinct (map fst define_categories)"
  by code_simp

section \<open>The categorization loop\<close>

lemma append_package_keys: "map fst (append_package cid p cats) = map fst cats"
  by (induction cats) (auto simp: append_package_def)

lemma append_package_other:
  "cid \<notin> fst ` set cats \<Longrightarrow> append_package cid p cats = cats"
  by (induction cats) (auto simp: append_package_def)

lemma append_package_mset:
  assumes "distinct (map fst cats)" "cid \<in> fst ` set cats"
  shows "mset (concat (map (\<lambda>e. packages (snd e)) (append_package cid p cats)))
       = mset (concat (map (\<lambda>e. packages (snd e)) cats)) + {#p#}"
  using assms
proof (induction cats)
  case Nil
  then show ?case by simp
next
  case (Cons e cats)
  show ?case
  proof (cases "fst e = cid")
    case True
    with Cons.prems(1) have "cid \<notin> fst ` set cats" by auto
    then have rest: "append_package cid p cats = cats" by (rule append_package_other)
    have "append_package cid p (e # cats)
        = (fst e, (snd e)\<lparr>packages := packages (snd e) @ [p]\<rparr>) # append_package cid p cats"
      using True by (cases e) (simp add: append_package_def)
    with rest show ?thesis by simp
  next
    case False
    with Cons.prems have d: "distinct (map fst cats)" and m: "cid \<in> fst ` set cats" by auto
    have "append_package cid p (e # cats) = e # append_package cid p cats"
      using False by (cases e) (simp add: append_package_def)
    with Cons.IH[OF d m] show ?thesis by simp
  qed
qed

lemma categorize_one_cases:
  assumes "categorize_one p (a, n) = Inr (a', n')"
  shows "(\<exists>cid. cid \<in> fst ` set (categories a)
            \<and> a' = a\<lparr>categories := append_package cid p (categories a)\<rparr> \<and> n' = n + 1)
       \<or> (a' = a\<lparr>uncategorized := uncategorized a @ [p]\<rparr> \<and> n' = n)"
proof -
  from assms obtain t where t: "extract_text_features p = Inr t"
    by (cases "extract_text_features p") (simp_all add: categorize_one_def)
  obtain bc bs where fb: "find_best t (categories a) = (bc, bs)"
    by (cases "find_best t (categories a)") auto
  show ?thesis
  proof (cases "1 \<le> bs")
    case True
    with assms t fb obtain cid where cid: "bc = Some cid"
      by (cases bc) (simp_all add: categorize_one_def)
    with fb have "fst (find_best t (categories a)) = Some cid" by simp
    from find_best_Some[OF this] obtain pre cat post where
      "categories a = pre @ (cid, cat) # post" by blast
    then have "cid \<in> fst ` set (categories a)" by force
    moreover from assms t fb cid True
    have "a' = a\<lparr>categories := append_package cid p (categories a)\<rparr> \<and> n' = n + 1"
      by (simp add: categorize_one_def)
    ultimately show ?thesis by blast
  next
    case False
    with assms t fb show ?thesis by (simp add: categorize_one_def)
  qed
qed

lemma categorize_one_partition:
  assumes "distinct (map fst (categories a))" "categorize_one p (a, n) = Inr (a', n')"
  shows "distinct (map fst (categories a'))
       \<and> mset (categorized a') + mset (uncategorized a')
           = mset (categorized a) + mset (uncategorized a) + {#p#}
       \<and> length (categorized a') + n = length (categorized a) + n'
       \<and> n' + length (uncategorized a') = n + length (uncategorized a) + 1"
proof -
  from categorize_one_cases[OF assms(2)] show ?thesis
  proof
    assume "\<exists>cid. cid \<in> fst ` set (categories a)
            \<and> a' = a\<lparr>categories := append_package cid p (categories a)\<rparr> \<and> n' = n + 1"
    then obtain cid where cid: "cid \<in> fst ` set (categories a)"
      and a': "a' = a\<lparr>categories := append_package cid p (categories a)\<rparr>" and n': "n' = n + 1"
      by blast
    have m: "mset (categorized a') = mset (categorized a) + {#p#}"
      using append_package_mset[OF assms(1) cid, of p] by (simp add: categorized_def a')
    then have "size (mset (categorized a')) = size (mset (categorized a) + {#p#})" by simp
    then have l: "length (categorized a') = length (categorized a) + 1" by simp
    have u: "uncategorized a' = uncategorized a" by (simp add: a')
    have d: "distinct (map fst (categories a'))"
      using assms(1) by (simp add: a' append_package_keys)
    from m l u d n' show ?thesis by simp
  next
    assume h: "a' = a\<lparr>uncategorized := uncategorized a @ [p]\<rparr> \<and> n' = n"
    then have "categorized a' = categorized a" by (simp add: categorized_def)
    with h assms(1) show ?thesis by simp
  qed
qed

lemma categorize_loop_partition:
  assumes "distinct (map fst (categories a))" "categorize_loop pkgs (a, n) = Inr (a', n')"
  shows "mset (categorized a') + mset (uncategorized a')
           = mset (categorized a) + mset (uncategorized a) + mset pkgs
       \<and> length (categorized a') + n = length (categorized a) + n'
       \<and> n' + length (uncategorized a') = n + length (uncategorized a) + length pkgs"
  using assms
proof (induction pkgs arbitrary: a n)
  case Nil
  then show ?case by simp
next
  case (Cons p pkgs)
  from Cons.prems(2) obtain a1 n1 where
    one: "categorize_one p (a, n) = Inr (a1, n1)" and
    rest: "categorize_loop pkgs (a1, n1) = Inr (a', n')"
    by (cases "categorize_one p (a, n)") auto
  from categorize_one_partition[OF Cons.prems(1) one] have
    d: "distinct (map fst (categories a1))" and
    s1: "mset (categorized a1) + mset (uncategorized a1)
           = mset (categorized a) + mset (uncategorized a) + {#p#}" and
    s2: "length (categorized a1) + n = length (categorized a) + n1" and
    s3: "n1 + length (uncategorized a1) = n + length (uncategorized a) + 1"
    by simp_all
  from Cons.IH[OF d rest] have
    r1: "mset (categorized a') + mset (uncategorized a')
           = mset (categorized a1) + mset (uncategorized a1) + mset pkgs" and
    r2: "length (categorized a') + n1 = length (categorized a1) + n'" and
    r3: "n' + length (uncategorized a') = n1 + length (uncategorized a1) + length pkgs"
    by simp_all
  from r1 s1 have "mset (categorized a') + mset (uncategorized a')
           = mset (categorized a) + mset (uncategorized a) + mset (p # pkgs)"
    by (simp add: ac_simps)
  moreover from r2 s2 have "length (categorized a') + n = length (categorized a) + n'" by arith
  moreover from r3 s3 have
    "n' + length (uncategorized a') = n + length (uncategorized a) + length (p # pkgs)" by simp
  ultimately show ?case by blast
qed

lemma categorize_one_total:
  assumes "extract_text_features p = Inr t"
  shows "\<exists>r. categorize_one p (a, n) = Inr r"
proof -
  obtain bc bs where fb: "find_best t (categories a) = (bc, bs)"
    by (cases "find_best t (categories a)") auto
  show ?thesis
  proof (cases "1 \<le> bs")
    case True
    have "bc \<noteq> None"
    proof
      assume "bc = None"
      with fb have "fst (find_best t (categories a)) = None" by simp
      from find_best_None[OF this] fb True show False by simp
    qed
    then obtain cid where "bc = Some cid" by auto
    with assms fb True show ?thesis by (simp add: categorize_one_def)
  next
    case False
    with assms fb show ?thesis by (simp add: categorize_one_def)
  qed
qed

lemma categorize_loop_total:
  assumes "\<forall>p \<in> set pkgs. \<exists>t. extract_text_features p = Inr t"
  shows "\<exists>r. categorize_loop pkgs st = Inr r"
  using assms
proof (induction pkgs arbitrary: st)
  case Nil
  then show ?case by simp
next
  case (Cons p pkgs)
  from Cons.prems obtain t where "extract_text_features p = Inr t" by auto
  from categorize_one_total[OF this, of "fst st" "snd st"] obtain r where
    "categorize_one p st = Inr r" by auto
  moreover from Cons.IH[of r] Cons.prems obtain r' where "categorize_loop pkgs r = Inr r'"
    by auto
  ultimately show ?case by simp
qed

lemma find_best_below:
  assumes "\<forall>e \<in> set cats. category_score t (snd e) < m" "0 < m"
  shows "snd (find_best t cats) < m"
  using assms(1)
proof (induction cats rule: rev_induct)
  case Nil
  with assms(2) show ?case by (simp add: find_best_def)
next
  case (snoc e cats)
  then have ih: "snd (find_best t cats) < m" and e: "category_score t (snd e) < m" by simp_all
  show ?case
  proof (cases "snd (find_best t cats) < category_score t (snd e)")
    case True
    with e show ?thesis by (simp add: find_best_snoc best_step_cases)
  next
    case False
    with ih show ?thesis by (simp add: find_best_snoc best_step_cases)
  qed
qed

lemma fold_best_step_keeps:
  assumes "\<forall>e \<in> set post. category_score t (snd e) \<le> snd b"
  shows "fold (best_step t) post b = b"
  using assms
proof (induction post)
  case Nil
  then show ?case by simp
next
  case (Cons e post)
  then have "best_step t e b = b" by (simp add: best_step_cases)
  with Cons show ?case by simp
qed

lemma find_best_first_max:
  assumes "1 \<le> category_score t cat"
    and "\<forall>e \<in> set pre. category_score t (snd e) < category_score t cat"
    and "\<forall>e \<in> set post. category_score t (snd e) \<le> category_score t cat"
  shows "find_best t (pre @ (cid, cat) # post) = (Some cid, category_score t cat)"
proof -
  from assms(1) have pos: "0 < category_score t cat" by simp
  from find_best_below[OF assms(2) pos] have
    "best_step t (cid, cat) (find_best t pre) = (Some cid, category_score t cat)"
    by (simp add: best_step_cases)
  then have "find_best t (pre @ (cid, cat) # post)
      = fold (best_step t) post (Some cid, category_score t cat)"
    by (simp add: find_best_def)
  also have "\<dots> = (Some cid, category_score t cat)"
    using assms(3) by (intro fold_best_step_keeps) simp
  finally show ?thesis .
qed

lemma append_package_split:
  assumes "distinct (map fst (pre @ (cid, cat) # post))"
  shows "append_package cid p (pre @ (cid, cat) # post)
       = pre @ (cid, cat\<lparr>packages := packages cat @ [p]\<rparr>) # post"
proof -
  from assms have "cid \<notin> fst ` set pre" and "cid \<notin> fst ` set post" by auto
  then have a: "append_package cid p pre = pre" and b: "append_package cid p post = post"
    by (simp_all add: append_package_other)
  have "append_package cid p (pre @ (cid, cat) # post)
      = append_package cid p pre @ (cid, cat\<lparr>packages := packages cat @ [p]\<rparr>)
          # append_package cid p post"
    by (simp add: append_package_def)
  with a b show ?thesis by simp
qed

lemma categorize_one_first_max:
  assumes "extract_text_features p = Inr t"
    and "distinct (map fst (categories a))"
    and "categories a = pre @ (cid, cat) # post"
    and "1 \<le> category_score t cat"
    and "\<forall>e \<in> set pre. category_score t (snd e) < category_score t cat"
    and "\<forall>e \<in> set post. category_score t (snd e) \<le> category_score t cat"
  shows "categorize_one p (a, n)
       = Inr (a\<lparr>categories := pre @ (cid, cat\<lparr>packages := packages cat @ [p]\<rparr>) # post\<rparr>,
              n + 1)"
proof -
  have fb: "find_best t (categories a) = (Some cid, category_score t cat)"
    unfolding assms(3) by (rule find_best_first_max[OF assms(4,5,6)])
  have ap: "append_package cid p (categories a)
       = pre @ (cid, cat\<lparr>packages := packages cat @ [p]\<rparr>) # post"
    using assms(2) unfolding assms(3) by (rule append_package_split)
  from assms(1,4) show ?thesis by (simp add: categorize_one_def fb ap)
qed

lemma categorize_one_positive:
  assumes "extract_text_features p = Inr t"
    and "distinct (map fst (categories a))"
    and "e \<in> set (categories a)" "1 \<le> category_score t (snd e)"
  shows "\<exists>pre cid cat post. categories a = pre @ (cid, cat) # post
           \<and> 1 \<le> category_score t cat
           \<and> categorize_one p (a, n)
               = Inr (a\<lparr>categories := pre @ (cid, cat\<lparr>packages := packages cat @ [p]\<rparr>) # post\<rparr>,
                      n + 1)"
proof -
  from find_best_positive[OF assms(3,4)] obtain cid where
    c: "fst (find_best t (categories a)) = Some cid" "1 \<le> snd (find_best t (categories a))"
    by blast
  from find_best_Some[OF c(1)] obtain pre cat post where
    s: "categories a = pre @ (cid, cat) # post"
       "category_score t cat = snd (find_best t (categories a))"
       "\<forall>e \<in> set pre. category_score t (snd e) < snd (find_best t (categories a))"
       "\<forall>e \<in> set post. category_score t (snd e) \<le> snd (find_best t (categories a))"
    by blast
  from s(2) c(2) have one: "1 \<le> category_score t cat" by simp
  from s(2,3) have lt: "\<forall>e \<in> set pre. category_score t (snd e) < category_score t cat" by simp
  from s(2,4) have le: "\<forall>e \<in> set post. category_score t (snd e) \<le> category_score t cat" by simp
  from categorize_one_first_max[OF assms(1,2) s(1) one lt le, of n] s(1) one
  show ?thesis by blast
qed

section \<open>The text blob\<close>

lemma strip_org_prefix_match:
  assumes "owner \<noteq> []" "CHR ''/'' \<notin> set owner"
  shows "strip_org_prefix (CHR ''@'' # owner @ CHR ''/'' # rest) = rest"
proof -
  from assms(2) have all: "\<forall>x \<in> set owner. x \<noteq> CHR ''/''" by auto
  have tw: "takeWhile (\<lambda>x. x \<noteq> CHR ''/'') (owner @ CHR ''/'' # rest) = owner"
    using all by simp
  have dw: "dropWhile (\<lambda>x. x \<noteq> CHR ''/'') (owner @ CHR ''/'' # rest) = CHR ''/'' # rest"
    using all by simp
  show ?thesis using assms(1) by (simp add: strip_org_prefix_def tw dw)
qed

lemma strip_org_prefix_no_match:
  assumes "\<not> (\<exists>owner rest. owner \<noteq> [] \<and> CHR ''/'' \<notin> set owner \<and> s = CHR ''@'' # owner @ CHR ''/'' # rest)"
  shows "strip_org_prefix s = s"
proof (cases s)
  case Nil
  then show ?thesis by (simp add: strip_org_prefix_def)
next
  case (Cons c r)
  let ?tw = "takeWhile (\<lambda>x. x \<noteq> CHR ''/'') r"
  let ?dw = "dropWhile (\<lambda>x. x \<noteq> CHR ''/'') r"
  have "\<not> (c = CHR ''@'' \<and> ?tw \<noteq> [] \<and> ?dw \<noteq> [])"
  proof
    assume h: "c = CHR ''@'' \<and> ?tw \<noteq> [] \<and> ?dw \<noteq> []"
    then have "hd ?dw = CHR ''/''" using hd_dropWhile[of "\<lambda>x. x \<noteq> CHR ''/''" r] by simp
    with h have dw: "?dw = CHR ''/'' # tl ?dw" by (cases ?dw) simp_all
    have "r = ?tw @ ?dw" by simp
    with dw have r: "r = ?tw @ CHR ''/'' # tl ?dw" by simp
    have "CHR ''/'' \<notin> set ?tw" using set_takeWhileD[of "CHR ''/''" "\<lambda>x. x \<noteq> CHR ''/''" r] by blast
    with h r Cons have "?tw \<noteq> [] \<and> CHR ''/'' \<notin> set ?tw \<and> s = CHR ''@'' # ?tw @ CHR ''/'' # tl ?dw"
      by simp
    with assms show False by blast
  qed
  with Cons show ?thesis by (auto simp: strip_org_prefix_def)
qed

lemma lower_all_strings: "lower_all (map JStr ks) = Inr (map lower ks)"
  by (induction ks) (simp_all add: str_lower_def)

lemma extract_text_features_strings:
  assumes "dict_get d ''name'' (JStr []) = JStr n"
    and "dict_get d ''description'' (JStr []) = JStr ds"
    and "dict_get d ''keywords'' (JList []) = JList (map JStr ks)"
  shows "extract_text_features (JObj d)
       = Inr (join_space ([strip_org_prefix (lower n), lower ds] @ map lower ks))"
  using assms
  by (simp add: extract_text_features_def str_lower_def keyword_parts_def lower_all_strings)

section \<open>Claims about the classifier\<close>

text \<open>
  C4. When several categories reach the maximal score, the package is filed under the one
  that comes first in catalog order. If the catalog splits at an entry \<open>cid\<close> scoring at
  least 1, with every entry before it scoring strictly less and no entry after it scoring
  more, then the loop ends with \<open>cid\<close> and that score, and the package is appended to the
  list of that entry and to no other list; entries after it with the same score are left
  as they were. Conversely, whenever the loop ends with a category, the catalog splits in
  this way at that category, and the package is appended to its list alone.
\<close>

theorem tie_break_first_in_catalog_order:
  assumes "extract_text_features p = Inr t"
    and "distinct (map fst (categories a))"
  shows "(categories a = pre @ (cid, cat) # post
            \<and> 1 \<le> category_score t cat
            \<and> (\<forall>e \<in> set pre. category_score t (snd e) < category_score t cat)
            \<and> (\<forall>e \<in> set post. category_score t (snd e) \<le> category_score t cat)
          \<longrightarrow> find_best t (categories a) = (Some cid, category_score t cat)
              \<and> categorize_one p (a, n)
                  = Inr (a\<lparr>categories :=
                             pre @ (cid, cat\<lparr>packages := packages cat @ [p]\<rparr>) # post\<rparr>,
                         n + 1))
       \<and> (find_best t (categories a) = (Some cid', s)
          \<longrightarrow> (\<exists>pre' cat' post'. categories a = pre' @ (cid', cat') # post'
                 \<and> category_score t cat' = s
                 \<and> (\<forall>e \<in> set pre'. category_score t (snd e) < s)
                 \<and> (\<forall>e \<in> set post'. category_score t (snd e) \<le> s)
                 \<and> categorize_one p (a, n)
                     = Inr (a\<lparr>categories :=
                                pre' @ (cid', cat'\<lparr>packages := packages cat' @ [p]\<rparr>) # post'\<rparr>,
                            n + 1)))"
proof (intro conjI impI)
  assume h: "categories a = pre @ (cid, cat) # post
            \<and> 1 \<le> category_score t cat
            \<and> (\<forall>e \<in> set pre. category_score t (snd e) < category_score t cat)
            \<and> (\<forall>e \<in> set post. category_score t (snd e) \<le> category_score t cat)"
  then have sp: "categories a = pre @ (cid, cat) # post"
    and one: "1 \<le> category_score t cat"
    and lt: "\<forall>e \<in> set pre. category_score t (snd e) < category_score t cat"
    and le: "\<forall>e \<in> set post. category_score t (snd e) \<le> category_score t cat"
    by blast+
  show "find_best t (categories a) = (Some cid, category_score t cat)"
    unfolding sp by (rule find_best_first_max[OF one lt le])
  show "categorize_one p (a, n)
      = Inr (a\<lparr>categories := pre @ (cid, cat\<lparr>packages := packages cat @ [p]\<rparr>) # post\<rparr>,
             n + 1)"
    by (rule categorize_one_first_max[OF assms sp one lt le])
next
  assume fb: "find_best t (categories a) = (Some cid', s)"
  then have f: "fst (find_best t (categories a)) = Some cid'"
    and sn: "snd (find_best t (categories a)) = s" by simp_all
  from find_best_Some[OF f] sn obtain pre' cat' post' where
    one: "1 \<le> s" and sp: "categories a = pre' @ (cid', cat') # post'"
    and sc: "category_score t cat' = s"
    and lt: "\<forall>e \<in> set pre'. category_score t (snd e) < s"
    and le: "\<forall>e \<in> set post'. category_score t (snd e) \<le> s"
    by auto
  from one sc have one': "1 \<le> category_score t cat'" by simp
  from lt sc have lt': "\<forall>e \<in> set pre'. category_score t (snd e) < category_score t cat'"
    by simp
  from le sc have le': "\<forall>e \<in> set post'. category_score t (snd e) \<le> category_score t cat'"
    by simp
  note filed = categorize_one_first_max[OF assms sp one' lt' le', of n]
  from sp sc lt le filed
  show "\<exists>pre' cat' post'. categories a = pre' @ (cid', cat') # post'
                 \<and> category_score t cat' = s
                 \<and> (\<forall>e \<in> set pre'. category_score t (snd e) < s)
                 \<and> (\<forall>e \<in> set post'. category_score t (snd e) \<le> s)
                 \<and> categorize_one p (a, n)
                     = Inr (a\<lparr>categories :=
                                pre' @ (cid', cat'\<lparr>packages := packages cat' @ [p]\<rparr>) # post'\<rparr>,
                            n + 1)"
    by blast
qed

theorem tie_break_first_in_catalog_order_witness:
  "extract_text_features (JObj [(''name'', JStr ''x'')]) = Inr ''x ''
   \<and> category_score ''x '' \<lparr>keywords' = [''x''], packages = []\<rparr> = 2
   \<and> find_best ''x ''
        [(''a'', \<lparr>keywords' = [''x''], packages = []\<rparr>),
         (''b'', \<lparr>keywords' = [''x''], packages = []\<rparr>)] = (Some ''a'', 2)
   \<and> categorize_one (JObj [(''name'', JStr ''x'')])
        (\<lparr>categories = [(''a'', \<lparr>keywords' = [''x''], packages = []\<rparr>),
                        (''b'', \<lparr>keywords' = [''x''], packages = []\<rparr>)],
          uncategorized = []\<rparr>, 0)
      = Inr (\<lparr>categories =
                [(''a'', \<lparr>keywords' = [''x''], packages = [JObj [(''name'', JStr ''x'')]]\<rparr>),
                 (''b'', \<lparr>keywords' = [''x''], packages = []\<rparr>)],
              uncategorized = []\<rparr>, 1)"
proof -
  let ?c = "\<lparr>keywords' = [''x''], packages = []\<rparr>"
  let ?a = "\<lparr>categories = [(''a'', ?c), (''b'', ?c)], uncategorized = []\<rparr>"
  let ?p = "JObj [(''name'', JStr ''x'')]"
  have h1: "extract_text_features ?p = Inr ''x ''" by code_simp
  have h2: "distinct (map fst (categories ?a))" by simp
  have sc: "category_score ''x '' ?c = 2" by code_simp
  have pre: "categories ?a = [] @ (''a'', ?c) # [(''b'', ?c)]
            \<and> 1 \<le> category_score ''x '' ?c
            \<and> (\<forall>e \<in> set []. category_score ''x '' (snd e) < category_score ''x '' ?c)
            \<and> (\<forall>e \<in> set [(''b'', ?c)]. category_score ''x '' (snd e) \<le> category_score ''x '' ?c)"
    using sc by simp
  from tie_break_first_in_catalog_order[OF h1 h2, of "[]" "''a''" ?c "[(''b'', ?c)]" 0] pre
  have "find_best ''x '' (categories ?a) = (Some ''a'', category_score ''x '' ?c)
        \<and> categorize_one ?p (?a, 0)
            = Inr (?a\<lparr>categories :=
                       [] @ (''a'', ?c\<lparr>packages := packages ?c @ [?p]\<rparr>) # [(''b'', ?c)]\<rparr>,
                   0 + 1)"
    by blast
  with h1 sc show ?thesis by simp
qed

text \<open>
  C5. For every text blob and every category of the catalog, the score is the sum over
  the category's keywords of 2 for a keyword that occurs as a whole word (a non-word
  character or a string edge on each side), else 1 for a keyword that occurs as a
  substring, else 0; each keyword counts once. For the package \<open>@org/hilog\<close> with
  description \<open>logging utility for apps\<close> the utilities category scores exactly 2.
\<close>

theorem score_is_weighted_keyword_sum:
  "(e \<in> set define_categories \<longrightarrow>
      category_score t (snd e) = (\<Sum>kw \<in> set (keywords' (snd e)). spec_keyword_score t kw))
   \<and> extract_text_features
        (JObj [(''name'', JStr ''@org/hilog''),
               (''description'', JStr ''logging utility for apps'')])
      = Inr ''hilog logging utility for apps''
   \<and> (\<exists>c. map_of define_categories ''utilities'' = Some c
          \<and> category_score ''hilog logging utility for apps'' c = 2)"
proof -
  have general: "e \<in> set define_categories \<longrightarrow>
      category_score t (snd e) = (\<Sum>kw \<in> set (keywords' (snd e)). spec_keyword_score t kw)"
  proof
    assume "e \<in> set define_categories"
    with catalog_keywords_wordlike have
      "distinct (keywords' (snd e))"
      "\<forall>kw \<in> set (keywords' (snd e)). kw \<noteq> [] \<and> is_word (hd kw) \<and> is_word (last kw)"
      by (simp_all add: list_all_iff)
    then show "category_score t (snd e)
        = (\<Sum>kw \<in> set (keywords' (snd e)). spec_keyword_score t kw)"
      by (rule category_score_spec)
  qed
  have blob: "extract_text_features
        (JObj [(''name'', JStr ''@org/hilog''),
               (''description'', JStr ''logging utility for apps'')])
      = Inr ''hilog logging utility for apps''"
    by code_simp
  have "category_score ''hilog logging utility for apps''
          (the (map_of define_categories ''utilities'')) = 2"
    by code_simp
  moreover have "map_of define_categories ''utilities'' \<noteq> None"
    by code_simp
  ultimately have scen: "\<exists>c. map_of define_categories ''utilities'' = Some c
          \<and> category_score ''hilog logging utility for apps'' c = 2"
    by auto
  from general blob scen show ?thesis by blast
qed

theorem score_is_weighted_keyword_sum_witness:
  "define_categories ! 2 \<in> set define_categories
   \<and> category_score ''hilog logging utility for apps'' (snd (define_categories ! 2))
       = (\<Sum>kw \<in> set (keywords' (snd (define_categories ! 2))).
            spec_keyword_score ''hilog logging utility for apps'' kw)"
proof -
  have len: "length define_categories = 23" by code_simp
  then have mem: "define_categories ! 2 \<in> set define_categories" by simp
  from score_is_weighted_keyword_sum[of "define_categories ! 2" "''hilog logging utility for apps''"]
    mem show ?thesis by blast
qed

text \<open>
  C6. A package is assigned a category exactly when some category scores at least 1. If
  every category of the catalog scores 0, the package is appended to the uncategorized
  list, no category list changes and the count stays. If some category scores at least
  1, the package is appended to the list of one category of the catalog, which itself
  scores at least 1, the other lists and the uncategorized list stay as they were, and
  the count grows by one.
\<close>

theorem assigned_iff_positive_score:
  assumes "extract_text_features p = Inr t"
  shows "((\<forall>e \<in> set (categories a). category_score t (snd e) = 0) \<longrightarrow>
            categorize_one p (a, n) = Inr (a\<lparr>uncategorized := uncategorized a @ [p]\<rparr>, n))
       \<and> (distinct (map fst (categories a))
            \<and> (\<exists>e \<in> set (categories a). 1 \<le> category_score t (snd e)) \<longrightarrow>
            (\<exists>pre cid cat post. categories a = pre @ (cid, cat) # post
               \<and> 1 \<le> category_score t cat
               \<and> categorize_one p (a, n)
                   = Inr (a\<lparr>categories :=
                              pre @ (cid, cat\<lparr>packages := packages cat @ [p]\<rparr>) # post\<rparr>,
                          n + 1)))"
proof (intro conjI impI)
  assume "\<forall>e \<in> set (categories a). category_score t (snd e) = 0"
  then show "categorize_one p (a, n) = Inr (a\<lparr>uncategorized := uncategorized a @ [p]\<rparr>, n)"
    by (rule categorize_one_uncategorized[OF assms])
next
  assume h: "distinct (map fst (categories a))
            \<and> (\<exists>e \<in> set (categories a). 1 \<le> category_score t (snd e))"
  then obtain e where d: "distinct (map fst (categories a))"
    and e: "e \<in> set (categories a)" "1 \<le> category_score t (snd e)" by blast
  show "\<exists>pre cid cat post. categories a = pre @ (cid, cat) # post
               \<and> 1 \<le> category_score t cat
               \<and> categorize_one p (a, n)
                   = Inr (a\<lparr>categories :=
                              pre @ (cid, cat\<lparr>packages := packages cat @ [p]\<rparr>) # post\<rparr>,
                          n + 1)"
    by (rule categorize_one_positive[OF assms d e])
qed

theorem assigned_iff_positive_score_witness:
  "extract_text_features (JObj [(''name'', JStr ''q'')]) = Inr ''q ''
   \<and> category_score ''q '' \<lparr>keywords' = [''x''], packages = []\<rparr> = 0
   \<and> categorize_one (JObj [(''name'', JStr ''q'')])
        (\<lparr>categories = [(''a'', \<lparr>keywords' = [''x''], packages = []\<rparr>)],
          uncategorized = []\<rparr>, 0)
      = Inr (\<lparr>categories = [(''a'', \<lparr>keywords' = [''x''], packages = []\<rparr>)],
              uncategorized = [JObj [(''name'', JStr ''q'')]]\<rparr>, 0)
   \<and> extract_text_features (JObj [(''name'', JStr ''x'')]) = Inr ''x ''
   \<and> category_score ''x '' \<lparr>keywords' = [''x''], packages = []\<rparr> = 2
   \<and> (\<exists>pre cid cat post.
         [(''a'', \<lparr>keywords' = [''x''], packages = []\<rparr>)] = pre @ (cid, cat) # post
         \<and> 1 \<le> category_score ''x '' cat
         \<and> categorize_one (JObj [(''name'', JStr ''x'')])
              (\<lparr>categories = [(''a'', \<lparr>keywords' = [''x''], packages = []\<rparr>)],
                uncategorized = []\<rparr>, 0)
            = Inr (\<lparr>categories =
                      pre @ (cid, cat\<lparr>packages := packages cat @ [JObj [(''name'', JStr ''x'')]]\<rparr>)
                        # post,
                    uncategorized = []\<rparr>, 1))"
proof -
  let ?c = "\<lparr>keywords' = [''x''], packages = []\<rparr>"
  let ?a = "\<lparr>categories = [(''a'', ?c)], uncategorized = []\<rparr>"
  have h1: "extract_text_features (JObj [(''name'', JStr ''q'')]) = Inr ''q ''"
    by code_simp
  have z: "category_score ''q '' ?c = 0" by code_simp
  then have h2: "\<forall>e \<in> set (categories ?a). category_score ''q '' (snd e) = 0" by simp
  from assigned_iff_positive_score[OF h1, of ?a 0] h2
  have un: "categorize_one (JObj [(''name'', JStr ''q'')]) (?a, 0)
      = Inr (?a\<lparr>uncategorized := uncategorized ?a @ [JObj [(''name'', JStr ''q'')]]\<rparr>, 0)"
    by blast
  have g1: "extract_text_features (JObj [(''name'', JStr ''x'')]) = Inr ''x ''"
    by code_simp
  have two: "category_score ''x '' ?c = 2" by code_simp
  then have g2: "distinct (map fst (categories ?a))
            \<and> (\<exists>e \<in> set (categories ?a). 1 \<le> category_score ''x '' (snd e))" by simp
  from assigned_iff_positive_score[OF g1, of ?a 0] g2
  have "\<exists>pre cid cat post. categories ?a = pre @ (cid, cat) # post
               \<and> 1 \<le> category_score ''x '' cat
               \<and> categorize_one (JObj [(''name'', JStr ''x'')]) (?a, 0)
                   = Inr (?a\<lparr>categories :=
                              pre @ (cid, cat\<lparr>packages := packages cat @ [JObj [(''name'', JStr ''x'')]]\<rparr>) # post\<rparr>,
                          0 + 1)"
    by blast
  then have as: "\<exists>pre cid cat post.
         [(''a'', ?c)] = pre @ (cid, cat) # post
         \<and> 1 \<le> category_score ''x '' cat
         \<and> categorize_one (JObj [(''name'', JStr ''x'')]) (?a, 0)
            = Inr (\<lparr>categories =
                      pre @ (cid, cat\<lparr>packages := packages cat @ [JObj [(''name'', JStr ''x'')]]\<rparr>)
                        # post,
                    uncategorized = []\<rparr>, 1)"
    by simp
  from un have un': "categorize_one (JObj [(''name'', JStr ''q'')]) (?a, 0)
      = Inr (\<lparr>categories = [(''a'', ?c)],
              uncategorized = [JObj [(''name'', JStr ''q'')]]\<rparr>, 0)"
    by simp
  from h1 z un' g1 two as show ?thesis by (intro conjI)
qed

text \<open>
  C8. For a package whose name and description are strings (or absent) and whose keywords
  are a list of strings (or absent), the text blob is the lowercased name without a
  leading \<open>@owner/\<close> prefix, the lowercased description and the lowercased keywords,
  joined by single spaces. The prefix that is stripped is \<open>@\<close>, at least one character
  other than a slash, and the first slash; a name of any other shape is kept whole.
\<close>

theorem text_blob_is_lowercased_join:
  assumes "dict_get d ''name'' (JStr []) = JStr n"
    and "dict_get d ''description'' (JStr []) = JStr ds"
    and "dict_get d ''keywords'' (JList []) = JList (map JStr ks)"
  shows "extract_text_features (JObj d)
           = Inr (join_space ([strip_org_prefix (lower n), lower ds] @ map lower ks))
       \<and> (\<forall>owner rest. owner \<noteq> [] \<and> CHR ''/'' \<notin> set owner \<longrightarrow>
             strip_org_prefix (CHR ''@'' # owner @ CHR ''/'' # rest) = rest)
       \<and> (\<forall>s. \<not> (\<exists>owner rest. owner \<noteq> [] \<and> CHR ''/'' \<notin> set owner
                     \<and> s = CHR ''@'' # owner @ CHR ''/'' # rest) \<longrightarrow>
             strip_org_prefix s = s)"
  using extract_text_features_strings[OF assms] strip_org_prefix_match strip_org_prefix_no_match
  by blast

theorem text_blob_is_lowercased_join_witness:
  "dict_get [(''name'', JStr ''@Ohos/Axios''), (''description'', JStr ''HTTP Client''),
             (''keywords'', JList [JStr ''Net'', JStr ''REST''])] ''name'' (JStr [])
     = JStr ''@Ohos/Axios''
   \<and> extract_text_features
        (JObj [(''name'', JStr ''@Ohos/Axios''), (''description'', JStr ''HTTP Client''),
               (''keywords'', JList [JStr ''Net'', JStr ''REST''])])
     = Inr ''axios http client net rest''
   \<and> strip_org_prefix ''@ohos/axios'' = ''axios''"
proof -
  let ?d = "[(''name'', JStr ''@Ohos/Axios''), (''description'', JStr ''HTTP Client''),
             (''keywords'', JList [JStr ''Net'', JStr ''REST''])]"
  have h1: "dict_get ?d ''name'' (JStr []) = JStr ''@Ohos/Axios''" by code_simp
  have h2: "dict_get ?d ''description'' (JStr []) = JStr ''HTTP Client''" by code_simp
  have h3: "dict_get ?d ''keywords'' (JList []) = JList (map JStr [''Net'', ''REST''])"
    by code_simp
  have v: "join_space ([strip_org_prefix (lower ''@Ohos/Axios''), lower ''HTTP Client'']
                @ map lower [''Net'', ''REST'']) = ''axios http client net rest''"
    by code_simp
  have m: "''@ohos/axios'' = CHR ''@'' # ''ohos'' @ CHR ''/'' # ''axios''" by simp
  have o: "''ohos'' \<noteq> [] \<and> CHR ''/'' \<notin> set ''ohos''" by simp
  from text_blob_is_lowercased_join[OF h1 h2 h3] have
    e: "extract_text_features (JObj ?d)
          = Inr (join_space ([strip_org_prefix (lower ''@Ohos/Axios''), lower ''HTTP Client'']
                @ map lower [''Net'', ''REST'']))"
    and st: "\<forall>owner rest. owner \<noteq> [] \<and> CHR ''/'' \<notin> set owner \<longrightarrow>
             strip_org_prefix (CHR ''@'' # owner @ CHR ''/'' # rest) = rest"
    by blast+
  from st o have "strip_org_prefix (CHR ''@'' # ''ohos'' @ CHR ''/'' # ''axios'') = ''axios''"
    by blast
  with m have "strip_org_prefix ''@ohos/axios'' = ''axios''" by simp
  with h1 e v show ?thesis by simp
qed

text \<open>
  C10. Categorization partitions the package list. Started on a category table with
  distinct ids and empty package lists and an empty uncategorized list, and run over
  packages whose text can be extracted, \<open>categorize_packages\<close> returns, and afterwards the
  category lists and the uncategorized list together hold exactly the input packages,
  each occurrence once; the logged count is the number of packages in category lists, and
  the count plus the length of the uncategorized list is the number of input packages.
\<close>

theorem categorize_packages_partitions:
  assumes "distinct (map fst cats)"
    and "\<forall>e \<in> set cats. packages (snd e) = []"
    and "\<forall>p \<in> set pkgs. \<exists>t. extract_text_features p = Inr t"
  shows "\<exists>a' n. categorize_packages pkgs \<lparr>categories = cats, uncategorized = []\<rparr> = Inr (a', n)
           \<and> mset (categorized a') + mset (uncategorized a') = mset pkgs
           \<and> n = length (categorized a')
           \<and> n + length (uncategorized a') = length pkgs"
proof -
  let ?a = "\<lparr>categories = cats, uncategorized = []\<rparr>"
  from categorize_loop_total[OF assms(3), of "(?a, 0)"] obtain r where
    r: "categorize_loop pkgs (?a, 0) = Inr r" by blast
  obtain a' n where an: "r = (a', n)" by (cases r)
  from r an have run: "categorize_loop pkgs (?a, 0) = Inr (a', n)" by simp
  have d: "distinct (map fst (categories ?a))" using assms(1) by simp
  have empty: "categorized ?a = []" using assms(2) by (simp add: categorized_def)
  have u: "uncategorized ?a = []" by simp
  from categorize_loop_partition[OF d run] have
    p1: "mset (categorized a') + mset (uncategorized a')
           = mset (categorized ?a) + mset (uncategorized ?a) + mset pkgs" and
    p2: "length (categorized a') + 0 = length (categorized ?a) + n" and
    p3: "n + length (uncategorized a') = 0 + length (uncategorized ?a) + length pkgs"
    by blast+
  from p1 have q1: "mset (categorized a') + mset (uncategorized a') = mset pkgs"
    unfolding empty u by simp
  from p2 have q2: "n = length (categorized a')" unfolding empty by simp
  from p3 have q3: "n + length (uncategorized a') = length pkgs" unfolding u by simp
  from run have "categorize_packages pkgs ?a = Inr (a', n)" by (simp only: categorize_packages_def)
  with q1 q2 q3 show ?thesis by blast
qed

theorem categorize_packages_partitions_witness:
  "distinct (map fst [(''a'', \<lparr>keywords' = [''x''], packages = []\<rparr>)])
   \<and> extract_text_features (JObj [(''name'', JStr ''x'')]) = Inr ''x ''
   \<and> extract_text_features (JObj [(''name'', JStr ''q'')]) = Inr ''q ''
   \<and> (\<exists>a' n. categorize_packages [JObj [(''name'', JStr ''x'')], JObj [(''name'', JStr ''q'')]]
        \<lparr>categories = [(''a'', \<lparr>keywords' = [''x''], packages = []\<rparr>)], uncategorized = []\<rparr>
          = Inr (a', n)
        \<and> mset (categorized a') + mset (uncategorized a')
            = mset [JObj [(''name'', JStr ''x'')], JObj [(''name'', JStr ''q'')]]
        \<and> n = length (categorized a')
        \<and> n + length (uncategorized a')
            = length [JObj [(''name'', JStr ''x'')], JObj [(''name'', JStr ''q'')]])"
proof -
  let ?cats = "[(''a'', \<lparr>keywords' = [''x''], packages = []\<rparr>)]"
  let ?pkgs = "[JObj [(''name'', JStr ''x'')], JObj [(''name'', JStr ''q'')]]"
  have h1: "distinct (map fst ?cats)" by simp
  have h2: "\<forall>e \<in> set ?cats. packages (snd e) = []" by simp
  have e1: "extract_text_features (JObj [(''name'', JStr ''x'')]) = Inr ''x ''" by code_simp
  have e2: "extract_text_features (JObj [(''name'', JStr ''q'')]) = Inr ''q ''" by code_simp
  from e1 e2 have h3: "\<forall>p \<in> set ?pkgs. \<exists>t. extract_text_features p = Inr t" by simp
  note c = categorize_packages_partitions[OF h1 h2 h3]
  from h1 e1 e2 c show ?thesis by (intro conjI)
qed

section \<open>Pages and rows\<close>

lemma fetch_page_failure:
  assumes "net page_num page_size = Raised
         \<or> (\<exists>status parsed. net page_num page_size = Responded status parsed
               \<and> (status \<noteq> 200 \<or> parsed = None
                    \<or> (\<exists>data. parsed = Some data \<and> (\<forall>d. data \<noteq> JObj d))))"
  shows "fetch_page net page_num page_size = []"
proof -
  have not_obj: "log_fetched data = Inl AttributeError" if "\<forall>d. data \<noteq> JObj d" for data
    using that by (cases data) (simp_all add: log_fetched_def)
  from assms show ?thesis
  proof
    assume "net page_num page_size = Raised"
    then show ?thesis by (simp add: fetch_page_def)
  next
    assume "\<exists>status parsed. net page_num page_size = Responded status parsed
               \<and> (status \<noteq> 200 \<or> parsed = None
                    \<or> (\<exists>data. parsed = Some data \<and> (\<forall>d. data \<noteq> JObj d)))"
    then obtain status parsed where
      r: "net page_num page_size = Responded status parsed" and
      c: "status \<noteq> 200 \<or> parsed = None \<or> (\<exists>data. parsed = Some data \<and> (\<forall>d. data \<noteq> JObj d))"
      by blast
    show ?thesis
    proof (cases "status \<noteq> 200")
      case True
      with r show ?thesis by (simp add: fetch_page_def)
    next
      case False
      show ?thesis
      proof (cases parsed)
        case None
        with r show ?thesis by (simp add: fetch_page_def)
      next
        case (Some data)
        with c False have "\<forall>d. data \<noteq> JObj d" by simp
        from not_obj[OF this] r Some show ?thesis
          by (simp add: fetch_page_def split: sum.splits)
      qed
    qed
  qed
qed

lemma append_rows_map_filter:
  "append_rows rows pkgs = pkgs @ List.map_filter make_package rows"
  by (induction rows arbitrary: pkgs) (simp_all split: option.splits)

lemma make_package_object:
  "\<exists>p. make_package (JObj d) = Some p \<and> name p = dict_get d ''name'' (JStr [])"
  by (simp add: make_package_def)

lemma make_package_other: "\<not> (\<exists>d. r = JObj d) \<Longrightarrow> make_package r = None"
  by (cases r) (simp_all add: make_package_def)

lemma process_page_data_rows:
  assumes "map_of page ''rows'' = Some (JList rows)"
  shows "process_page_data (JObj page) pkgs = Inr (pkgs @ List.map_filter make_package rows)"
proof -
  from assms have "page \<noteq> []" by auto
  with assms show ?thesis by (simp add: process_page_data_def append_rows_map_filter)
qed

lemma first_row_keys_ok:
  "first_row_keys rows = Inr u \<Longrightarrow> \<exists>d rest. rows = JList (JObj d # rest)"
  by (auto simp: first_row_keys_def split: json.splits list.splits)

lemma py_len_zero:
  "py_len rows = Inr 0 \<Longrightarrow> rows = JStr [] \<or> rows = JList [] \<or> rows = JObj []"
  by (cases rows) simp_all

lemma log_structure_rows:
  assumes "log_structure (JObj d) = Inr u" "map_of d ''body'' = Some (JObj body)"
    "map_of body ''rows'' = Some rows"
  shows "rows = JStr [] \<or> rows = JList [] \<or> rows = JObj [] \<or> (\<exists>r rest. rows = JList (JObj r # rest))"
proof (cases "py_len rows")
  case (Inl e)
  with assms show ?thesis by (simp add: log_structure_def)
next
  case (Inr n)
  show ?thesis
  proof (cases "n > 0")
    case True
    with assms Inr have "first_row_keys rows = Inr u" by (simp add: log_structure_def)
    from first_row_keys_ok[OF this] show ?thesis by blast
  next
    case False
    with Inr have "py_len rows = Inr 0" by simp
    from py_len_zero[OF this] show ?thesis by blast
  qed
qed

lemma log_fetched_body:
  assumes "log_fetched (JObj d) = Inr u" "map_of d ''body'' = Some b"
  shows "\<exists>body. b = JObj body"
  using assms by (cases b) (simp_all add: log_fetched_def dict_get_def)

lemma fetch_page_cases:
  "fetch_page net p s = [] \<or>
   (\<exists>d u u'. net p s = Responded 200 (Some (JObj d)) \<and> fetch_page net p s = d
       \<and> log_structure (JObj d) = Inr u \<and> log_fetched (JObj d) = Inr u')"
proof (cases "net p s")
  case Raised
  then show ?thesis by (simp add: fetch_page_def)
next
  case (Responded status parsed)
  show ?thesis
  proof (cases "status \<noteq> 200 \<or> parsed = None")
    case True
    with Responded show ?thesis by (auto simp: fetch_page_def)
  next
    case False
    then obtain data where data: "parsed = Some data" and st: "status = 200" by auto
    show ?thesis
    proof (cases "log_structure data")
      case (Inl e)
      with Responded data st show ?thesis by (simp add: fetch_page_def)
    next
      case ls: (Inr u)
      show ?thesis
      proof (cases "log_fetched data")
        case (Inl e)
        with Responded data st ls show ?thesis by (simp add: fetch_page_def)
      next
        case lf: (Inr u')
        show ?thesis
        proof (cases "\<exists>d. data = JObj d")
          case True
          then obtain d where "data = JObj d" by blast
          with Responded data st ls lf show ?thesis by (simp add: fetch_page_def)
        next
          case False
          then have "fetch_page net p s = []"
            using Responded data st ls lf by (cases data) (simp_all add: fetch_page_def)
          then show ?thesis by simp
        qed
      qed
    qed
  qed
qed

lemma fetch_page_body:
  assumes "map_of (fetch_page net p s) ''body'' = Some b"
  shows "\<exists>body. b = JObj body \<and>
           (map_of body ''rows'' = None
            \<or> (\<exists>rows. map_of body ''rows'' = Some rows \<and>
                 (rows = JStr [] \<or> rows = JList [] \<or> rows = JObj []
                  \<or> (\<exists>r rest. rows = JList (JObj r # rest)))))"
proof -
  from fetch_page_cases[of net p s] assms obtain d u u' where
    d: "fetch_page net p s = d" and ls: "log_structure (JObj d) = Inr u"
    and lf: "log_fetched (JObj d) = Inr u'"
    by auto
  from assms d have b: "map_of d ''body'' = Some b" by simp
  from log_fetched_body[OF lf b] obtain body where body: "b = JObj body" by blast
  show ?thesis
  proof (cases "map_of body ''rows''")
    case None
    with body show ?thesis by simp
  next
    case (Some rows)
    from log_structure_rows[OF ls b[unfolded body] Some] Some body show ?thesis by simp
  qed
qed

lemma process_page_data_fetched:
  assumes "map_of (fetch_page net p s) ''body'' = Some b"
  shows "process_page_data b pkgs
       = Inr (pkgs @ List.map_filter make_package (page_rows (fetch_page net p s)))"
proof -
  from fetch_page_body[OF assms] obtain body where body: "b = JObj body" and
    rows: "map_of body ''rows'' = None
            \<or> (\<exists>rows. map_of body ''rows'' = Some rows \<and>
                 (rows = JStr [] \<or> rows = JList [] \<or> rows = JObj []
                  \<or> (\<exists>r rest. rows = JList (JObj r # rest))))"
    by blast
  from rows show ?thesis
  proof
    assume n: "map_of body ''rows'' = None"
    then have "page_rows (fetch_page net p s) = []" using assms body by (simp add: page_rows_def)
    moreover from n have "process_page_data (JObj body) pkgs = Inr pkgs"
      by (simp add: process_page_data_def)
    ultimately show ?thesis using body by (simp add: map_filter_simps)
  next
    assume "\<exists>rows. map_of body ''rows'' = Some rows \<and>
                 (rows = JStr [] \<or> rows = JList [] \<or> rows = JObj []
                  \<or> (\<exists>r rest. rows = JList (JObj r # rest)))"
    then obtain rows where r: "map_of body ''rows'' = Some rows" and
      shape: "rows = JStr [] \<or> rows = JList [] \<or> rows = JObj []
                  \<or> (\<exists>r rest. rows = JList (JObj r # rest))"
      by blast
    from r have ne: "body \<noteq> []" by auto
    have pr: "page_rows (fetch_page net p s) = (case rows of JList xs \<Rightarrow> xs | _ \<Rightarrow> [])"
      using assms body r by (simp add: page_rows_def)
    from shape show ?thesis
    proof (elim disjE exE)
      assume "rows = JStr []"
      with r ne pr body show ?thesis by (simp add: process_page_data_def map_filter_simps)
    next
      assume "rows = JList []"
      with r ne pr body show ?thesis by (simp add: process_page_data_def map_filter_simps)
    next
      assume "rows = JObj []"
      with r ne pr body show ?thesis by (simp add: process_page_data_def map_filter_simps)
    next
      fix x rest assume "rows = JList (JObj x # rest)"
      with r ne pr body show ?thesis
        by (simp add: process_page_data_def append_rows_map_filter)
    qed
  qed
qed

lemma page_rows_empty: "page_rows [] = []"
  by (simp add: page_rows_def)

lemma page_rows_no_body: "map_of result ''body'' = None \<Longrightarrow> page_rows result = []"
  by (simp add: page_rows_def)

lemma process_result_fetched:
  "process_result (fetch_page net p s) pkgs
     = Inr (pkgs @ List.map_filter make_package (page_rows (fetch_page net p s)))"
proof (cases "map_of (fetch_page net p s) ''body''")
  case None
  then show ?thesis by (simp add: process_result_def page_rows_no_body map_filter_simps)
next
  case (Some b)
  then have "fetch_page net p s \<noteq> []" by auto
  with Some process_page_data_fetched[OF Some, of pkgs] show ?thesis
    by (simp add: process_result_def)
qed

lemma process_results_fetched:
  "process_results (map (\<lambda>p. fetch_page net p s) pages) pkgs
     = Inr (pkgs @ concat (map (\<lambda>p. List.map_filter make_package (page_rows (fetch_page net p s))) pages))"
  by (induction pages arbitrary: pkgs) (simp_all add: process_result_fetched)

lemma fetch_all_packages_abort:
  assumes "fetch_page net 1 50 = []
         \<or> map_of (fetch_page net 1 50) ''body'' = None
         \<or> (\<exists>body. map_of (fetch_page net 1 50) ''body'' = Some (JObj body)
               \<and> map_of body ''pages'' = None)"
  shows "fetch_all_packages net pkgs0 = Inr ([], pkgs0)"
  using assms
proof (elim disjE exE conjE)
  assume "fetch_page net 1 50 = []"
  then show ?thesis by (simp add: fetch_all_packages_def)
next
  assume "map_of (fetch_page net 1 50) ''body'' = None"
  then show ?thesis by (simp add: fetch_all_packages_def Let_def)
next
  fix body
  assume b: "map_of (fetch_page net 1 50) ''body'' = Some (JObj body)"
    and p: "map_of body ''pages'' = None"
  then show ?thesis by (simp add: fetch_all_packages_def Let_def)
qed

lemma fetch_all_packages_collects:
  assumes b: "map_of (fetch_page net 1 50) ''body'' = Some (JObj body)"
    and p: "map_of body ''pages'' = Some (JInt n)"
    and t: "map_of body ''total'' = Some tot"
  shows "fetch_all_packages net pkgs0
       = Inr (pkgs0 @ concat (map (\<lambda>p. List.map_filter make_package (page_rows (fetch_page net p 50))) (1 # [2..n])),
              pkgs0 @ concat (map (\<lambda>p. List.map_filter make_package (page_rows (fetch_page net p 50))) (1 # [2..n])))"
proof -
  from b have ne: "fetch_page net 1 50 \<noteq> []" by auto
  from p have bne: "body \<noteq> []" by auto
  note first = process_page_data_fetched[OF b, of pkgs0]
  show ?thesis
    using ne bne b p t first
    by (simp add: fetch_all_packages_def Let_def process_results_fetched)
qed

lemma fetch_all_packages_no_total:
  assumes b: "map_of (fetch_page net 1 50) ''body'' = Some (JObj body)"
    and p: "map_of body ''pages'' = Some v"
    and t: "map_of body ''total'' = None"
  shows "fetch_all_packages net pkgs0 = Inl KeyError"
proof -
  from b have ne: "fetch_page net 1 50 \<noteq> []" by auto
  from p have bne: "body \<noteq> []" by auto
  show ?thesis using ne bne b p t by (simp add: fetch_all_packages_def Let_def)
qed

lemma kept_all_objects:
  "\<forall>r \<in> set rows. \<exists>d. r = JObj d \<Longrightarrow> length (List.map_filter make_package rows) = length rows"
proof (induction rows)
  case Nil
  then show ?case by simp
next
  case (Cons r rows)
  then obtain d where "r = JObj d" by auto
  with Cons show ?case by (simp add: make_package_def)
qed

section \<open>Claims about the crawler\<close>

text \<open>
  C1, as stated, fails: a row whose name is the empty string is built into a
  \<open>Package\<close> and appended like any other; nothing in \<open>_process_page_data\<close> looks at the
  name.
\<close>

theorem empty_name_is_retained:
  "process_page_data
     (JObj [(''rows'', JList [JObj [(''name'', JStr []), (''description'', JStr ''nameless'')]])]) []
   = Inr [\<lparr>name = JStr [], description = JStr ''nameless'', org = JStr [],
            packageType = JStr [], latestVersion = JStr [], latestPublishTime = JInt 0,
            license = JStr [], authorName = JStr [], publisherId = JStr [],
            publisherName = JStr [], authorPicUrl = JStr [], likes = JInt 0,
            points = JInt 0, popularity = JInt 0\<rparr>]"
  by (simp add: process_page_data_def make_package_def dict_get_def)

text \<open>
  C1, amended. For every page whose \<open>rows\<close> is a list, the packages appended are the
  rows that are JSON objects, in order, each built with its name taken from the row or
  the empty string when the row has none; a row that is not an object is dropped (with a
  warning) and the loop goes on. A retained package can have an empty name.
\<close>

theorem object_rows_are_retained:
  assumes "map_of page ''rows'' = Some (JList rows)"
  shows "process_page_data (JObj page) pkgs = Inr (pkgs @ List.map_filter make_package rows)
       \<and> (\<forall>d. \<exists>p. make_package (JObj d) = Some p \<and> name p = dict_get d ''name'' (JStr []))
       \<and> (\<forall>r. \<not> (\<exists>d. r = JObj d) \<longrightarrow> make_package r = None)"
  using process_page_data_rows[OF assms] make_package_object make_package_other by blast

theorem object_rows_are_retained_witness:
  "map_of [(''rows'', JList [JInt 7, JObj [(''description'', JStr ''d'')]])] ''rows''
     = Some (JList [JInt 7, JObj [(''description'', JStr ''d'')]])
   \<and> process_page_data (JObj [(''rows'', JList [JInt 7, JObj [(''description'', JStr ''d'')]])]) []
     = Inr ([] @ List.map_filter make_package [JInt 7, JObj [(''description'', JStr ''d'')]])
   \<and> make_package (JInt 7) = None"
proof -
  have h: "map_of [(''rows'', JList [JInt 7, JObj [(''description'', JStr ''d'')]])] ''rows''
     = Some (JList [JInt 7, JObj [(''description'', JStr ''d'')]])"
    by simp
  have n: "\<not> (\<exists>d. JInt 7 = JObj d)" by simp
  from object_rows_are_retained[OF h, of "[]"] have
    a: "process_page_data (JObj [(''rows'', JList [JInt 7, JObj [(''description'', JStr ''d'')]])]) []
     = Inr ([] @ List.map_filter make_package [JInt 7, JObj [(''description'', JStr ''d'')]])"
    and b: "\<forall>r. \<not> (\<exists>d. r = JObj d) \<longrightarrow> make_package r = None"
    by blast+
  from b n have "make_package (JInt 7) = None" by blast
  with h a show ?thesis by (intro conjI)
qed

text \<open>
  C2, as stated, fails: \<open>fetch_all_packages\<close> returns the package list alone. A run whose
  second page times out returns exactly what a run returns whose second page arrives with
  no rows, so the failed page appears nowhere in the result.
\<close>

theorem failed_page_leaves_no_trace:
  "fetch_page registry_second_times_out 2 50 = []
   \<and> fetch_all_packages registry_second_times_out []
       = Inr ([\<lparr>name = JStr ''a'', description = JStr [], org = JStr [], packageType = JStr [],
          latestVersion = JStr [], latestPublishTime = JInt 0, license = JStr [],
          authorName = JStr [], publisherId = JStr [], publisherName = JStr [],
          authorPicUrl = JStr [], likes = JInt 0, points = JInt 0, popularity = JInt 0\<rparr>],
              [\<lparr>name = JStr ''a'', description = JStr [], org = JStr [], packageType = JStr [],
          latestVersion = JStr [], latestPublishTime = JInt 0, license = JStr [],
          authorName = JStr [], publisherId = JStr [], publisherName = JStr [],
          authorPicUrl = JStr [], likes = JInt 0, points = JInt 0, popularity = JInt 0\<rparr>])
   \<and> fetch_all_packages registry_second_times_out []
       = fetch_all_packages registry_second_empty []"
proof -
  have f2: "fetch_page registry_second_times_out 2 50 = []" by code_simp
  have v: "fetch_all_packages registry_second_times_out []
       = Inr ([\<lparr>name = JStr ''a'', description = JStr [], org = JStr [], packageType = JStr [],
          latestVersion = JStr [], latestPublishTime = JInt 0, license = JStr [],
          authorName = JStr [], publisherId = JStr [], publisherName = JStr [],
          authorPicUrl = JStr [], likes = JInt 0, points = JInt 0, popularity = JInt 0\<rparr>],
              [\<lparr>name = JStr ''a'', description = JStr [], org = JStr [], packageType = JStr [],
          latestVersion = JStr [], latestPublishTime = JInt 0, license = JStr [],
          authorName = JStr [], publisherId = JStr [], publisherName = JStr [],
          authorPicUrl = JStr [], likes = JInt 0, points = JInt 0, popularity = JInt 0\<rparr>])"
  proof -
    let ?body = "[(''pages'', JInt 2), (''total'', JInt 1),
                              (''rows'', JList [JObj [(''name'', JStr ''a'')]])]"
    have f1: "fetch_page registry_second_times_out 1 50 = [(''body'', JObj ?body)]"
      by code_simp
    have f2: "fetch_page registry_second_times_out 2 50 = []" by code_simp
    have b: "map_of (fetch_page registry_second_times_out 1 50) ''body'' = Some (JObj ?body)"
      unfolding f1 by simp
    have p: "map_of ?body ''pages'' = Some (JInt 2)" by simp
    have t: "map_of ?body ''total'' = Some (JInt 1)" by simp
    have u: "[2..2] = [2::int]" by (simp add: upto.simps)
    have k1: "List.map_filter make_package (page_rows (fetch_page registry_second_times_out 1 50))
       = [\<lparr>name = JStr ''a'', description = JStr [], org = JStr [], packageType = JStr [],
            latestVersion = JStr [], latestPublishTime = JInt 0, license = JStr [],
            authorName = JStr [], publisherId = JStr [], publisherName = JStr [],
            authorPicUrl = JStr [], likes = JInt 0, points = JInt 0, popularity = JInt 0\<rparr>]"
      unfolding f1 by (simp add: page_rows_def make_package_def dict_get_def map_filter_simps)
    have k2: "List.map_filter make_package (page_rows (fetch_page registry_second_times_out 2 50)) = []"
      unfolding f2 by (simp add: page_rows_def map_filter_simps)
    show ?thesis
      unfolding fetch_all_packages_collects[OF b p t, of "[]"] by (simp add: u k1 k2)
  qed
  have e: "fetch_all_packages registry_second_times_out []
       = fetch_all_packages registry_second_empty []"
  proof -
    let ?body = "[(''pages'', JInt 2), (''total'', JInt 1),
                              (''rows'', JList [JObj [(''name'', JStr ''a'')]])]"
    have f1: "fetch_page registry_second_times_out 1 50 = [(''body'', JObj ?body)]"
      by code_simp
    have g1: "fetch_page registry_second_empty 1 50 = [(''body'', JObj ?body)]"
      by code_simp
    have f2: "fetch_page registry_second_times_out 2 50 = []" by code_simp
    have g2: "fetch_page registry_second_empty 2 50 =
       [(''body'', JObj [(''pages'', JInt 2), (''total'', JInt 1), (''rows'', JList [])])]"
      by code_simp
    have b: "map_of (fetch_page registry_second_times_out 1 50) ''body'' = Some (JObj ?body)"
      unfolding f1 by simp
    have b': "map_of (fetch_page registry_second_empty 1 50) ''body'' = Some (JObj ?body)"
      unfolding g1 by simp
    have p: "map_of ?body ''pages'' = Some (JInt 2)" by simp
    have t: "map_of ?body ''total'' = Some (JInt 1)" by simp
    have u: "[2..2] = [2::int]" by (simp add: upto.simps)
    have k2: "page_rows (fetch_page registry_second_times_out 2 50) = []"
      unfolding f2 by (simp add: page_rows_def)
    have k2': "page_rows (fetch_page registry_second_empty 2 50) = []"
      unfolding g2 by (simp add: page_rows_def)
    show ?thesis
      unfolding fetch_all_packages_collects[OF b p t, of "[]"]
        fetch_all_packages_collects[OF b' p t, of "[]"]
      by (simp add: u k2 k2' f1 g1)
  qed
  from f2 v e show ?thesis by (intro conjI)
qed

text \<open>
  C2, amended. For every run whose first page succeeds with an integer page count \<open>n\<close>
  and a total, \<open>fetch_all_packages\<close> returns the package list, which is also the final
  \<open>self.packages\<close>, and no list of failures. The list is the packages held before followed
  by the object rows of pages \<open>1, 2, .., n\<close> in page order, so its length grows by the sum
  of the numbers of object rows of the fetched pages; a failed page, the empty dict, has
  no rows and adds nothing, and no failure of a later page makes the run raise. On a page
  whose rows are all objects the number kept is the row count.
\<close>

theorem collected_size_is_sum_of_kept_rows:
  assumes "map_of (fetch_page net 1 50) ''body'' = Some (JObj body)"
    and "map_of body ''pages'' = Some (JInt n)"
    and "map_of body ''total'' = Some tot"
  shows "(\<exists>ps. fetch_all_packages net pkgs0 = Inr (ps, ps)
            \<and> ps = pkgs0 @ concat (map (\<lambda>p. List.map_filter make_package
                                             (page_rows (fetch_page net p 50))) (1 # [2..n]))
            \<and> length ps = length pkgs0
                + (\<Sum>p\<leftarrow>1 # [2..n]. length (List.map_filter make_package
                                                (page_rows (fetch_page net p 50)))))
       \<and> page_rows [] = []
       \<and> (\<forall>rows. (\<forall>r \<in> set rows. \<exists>d. r = JObj d) \<longrightarrow>
             length (List.map_filter make_package rows) = length rows)"
proof -
  let ?kept = "\<lambda>p. List.map_filter make_package (page_rows (fetch_page net p 50))"
  let ?ps = "pkgs0 @ concat (map ?kept (1 # [2..n]))"
  have run: "fetch_all_packages net pkgs0 = Inr (?ps, ?ps)"
    by (rule fetch_all_packages_collects[OF assms])
  have "length (concat (map ?kept (1 # [2..n]))) = (\<Sum>p\<leftarrow>1 # [2..n]. length (?kept p))"
    by (simp only: length_concat map_map comp_def)
  then have len: "length ?ps = length pkgs0 + (\<Sum>p\<leftarrow>1 # [2..n]. length (?kept p))"
    by simp
  from run len have first: "\<exists>ps. fetch_all_packages net pkgs0 = Inr (ps, ps)
            \<and> ps = ?ps
            \<and> length ps = length pkgs0 + (\<Sum>p\<leftarrow>1 # [2..n]. length (?kept p))"
    by blast
  have objs: "\<forall>rows. (\<forall>r \<in> set rows. \<exists>d. r = JObj d) \<longrightarrow>
             length (List.map_filter make_package rows) = length rows"
    using kept_all_objects by blast
  from first page_rows_empty objs show ?thesis by (intro conjI)
qed

theorem collected_size_is_sum_of_kept_rows_witness:
  "map_of (fetch_page registry_second_times_out 1 50) ''body''
     = Some (JObj [(''pages'', JInt 2), (''total'', JInt 1),
                   (''rows'', JList [JObj [(''name'', JStr ''a'')]])])
   \<and> (\<exists>ps. fetch_all_packages registry_second_times_out [] = Inr (ps, ps)
        \<and> length ps = length ([]::package list)
            + (\<Sum>p\<leftarrow>1 # [2..2]. length (List.map_filter make_package
                                 (page_rows (fetch_page registry_second_times_out p 50)))))"
proof -
  let ?body = "[(''pages'', JInt 2), (''total'', JInt 1),
                (''rows'', JList [JObj [(''name'', JStr ''a'')]])]"
  have f1: "fetch_page registry_second_times_out 1 50 = [(''body'', JObj ?body)]"
    by code_simp
  have b: "map_of (fetch_page registry_second_times_out 1 50) ''body'' = Some (JObj ?body)"
    unfolding f1 by simp
  have p: "map_of ?body ''pages'' = Some (JInt 2)" by simp
  have t: "map_of ?body ''total'' = Some (JInt 1)" by simp
  from collected_size_is_sum_of_kept_rows[OF b p t, of "[]"] have
    "\<exists>ps. fetch_all_packages registry_second_times_out [] = Inr (ps, ps)
        \<and> length ps = length ([]::package list)
            + (\<Sum>p\<leftarrow>1 # [2..2]. length (List.map_filter make_package
                                 (page_rows (fetch_page registry_second_times_out p 50))))"
    by blast
  with b show ?thesis by (intro conjI)
qed

text \<open>
  C3, as stated, fails: the value returned on a failure is the empty dict, the same for
  page 2 answered with status 500 and for page 3 timing out; it carries neither the page
  number nor the cause.
\<close>

theorem failure_value_is_empty_dict:
  "fetch_page registry_status_500 2 50 = []
   \<and> fetch_page registry_timeout 3 50 = []
   \<and> fetch_page registry_status_500 2 50 = fetch_page registry_timeout 3 50"
proof -
  have a: "fetch_page registry_status_500 2 50 = []" by code_simp
  have b: "fetch_page registry_timeout 3 50 = []" by code_simp
  from a b show ?thesis by simp
qed

text \<open>
  C3, amended. For every page number and every failure condition (the request raises, as
  on a connection error or a timeout; the status is not 200; the text does not parse; the
  parsed value is not an object), \<open>fetch_page\<close> returns the empty dict. It raises nothing:
  the model is a total function into dicts, every exception of the source being caught
  inside it.
\<close>

theorem fetch_page_failure_returns_empty_dict:
  assumes "net page_num page_size = Raised
         \<or> (\<exists>status parsed. net page_num page_size = Responded status parsed
               \<and> (status \<noteq> 200 \<or> parsed = None
                    \<or> (\<exists>data. parsed = Some data \<and> (\<forall>d. data \<noteq> JObj d))))"
  shows "fetch_page net page_num page_size = []"
  using assms by (rule fetch_page_failure)

theorem fetch_page_failure_returns_empty_dict_witness:
  "registry_timeout 7 50 = Raised \<and> fetch_page registry_timeout 7 50 = []"
proof -
  have h: "registry_timeout 7 50 = Raised" by (simp add: registry_timeout_def)
  then have "registry_timeout 7 50 = Raised
         \<or> (\<exists>status parsed. registry_timeout 7 50 = Responded status parsed
               \<and> (status \<noteq> 200 \<or> parsed = None
                    \<or> (\<exists>data. parsed = Some data \<and> (\<forall>d. data \<noteq> JObj d))))"
    by (rule disjI1)
  from fetch_page_failure_returns_empty_dict[of registry_timeout 7 50, OF this] h
  show ?thesis by (intro conjI)
qed

text \<open>
  C7. If fetching page 1 fails (the request raises, the status is not 200, the text does
  not parse, or \<open>fetch_page\<close> yields the empty dict or a dict without \<open>body\<close>), or the body
  of page 1 has no \<open>pages\<close>, the collection stops at once: \<open>fetch_all_packages\<close> returns
  the empty list and leaves \<open>self.packages\<close> as it was, so no record of any page is
  returned. If the body has \<open>pages\<close> but no \<open>total\<close>, the run ends in a \<open>KeyError\<close> and
  returns nothing at all.
\<close>

theorem first_page_failure_returns_nothing:
  "((net 1 50 = Raised
      \<or> (\<exists>status parsed. net 1 50 = Responded status parsed \<and> (status \<noteq> 200 \<or> parsed = None))
      \<or> fetch_page net 1 50 = []
      \<or> map_of (fetch_page net 1 50) ''body'' = None
      \<or> (\<exists>body. map_of (fetch_page net 1 50) ''body'' = Some (JObj body)
            \<and> map_of body ''pages'' = None))
     \<longrightarrow> fetch_all_packages net pkgs0 = Inr ([], pkgs0))
   \<and> ((\<exists>body v. map_of (fetch_page net 1 50) ''body'' = Some (JObj body)
            \<and> map_of body ''pages'' = Some v \<and> map_of body ''total'' = None)
     \<longrightarrow> fetch_all_packages net pkgs0 = Inl KeyError)"
proof (intro conjI impI)
  assume h: "net 1 50 = Raised
      \<or> (\<exists>status parsed. net 1 50 = Responded status parsed \<and> (status \<noteq> 200 \<or> parsed = None))
      \<or> fetch_page net 1 50 = []
      \<or> map_of (fetch_page net 1 50) ''body'' = None
      \<or> (\<exists>body. map_of (fetch_page net 1 50) ''body'' = Some (JObj body)
            \<and> map_of body ''pages'' = None)"
  have "fetch_page net 1 50 = []
         \<or> map_of (fetch_page net 1 50) ''body'' = None
         \<or> (\<exists>body. map_of (fetch_page net 1 50) ''body'' = Some (JObj body)
               \<and> map_of body ''pages'' = None)"
  proof -
    from h consider
      (raised) "net 1 50 = Raised"
      | (bad) "\<exists>status parsed. net 1 50 = Responded status parsed \<and> (status \<noteq> 200 \<or> parsed = None)"
      | (rest) "fetch_page net 1 50 = []
         \<or> map_of (fetch_page net 1 50) ''body'' = None
         \<or> (\<exists>body. map_of (fetch_page net 1 50) ''body'' = Some (JObj body)
               \<and> map_of body ''pages'' = None)"
      by blast
    then show ?thesis
    proof cases
      case raised
      then have "fetch_page net 1 50 = []" by (simp add: fetch_page_def)
      then show ?thesis by simp
    next
      case bad
      then obtain status parsed where "net 1 50 = Responded status parsed"
        "status \<noteq> 200 \<or> parsed = None" by blast
      then have "fetch_page net 1 50 = []" by (auto simp: fetch_page_def)
      then show ?thesis by simp
    next
      case rest
      then show ?thesis .
    qed
  qed
  then show "fetch_all_packages net pkgs0 = Inr ([], pkgs0)"
    by (rule fetch_all_packages_abort)
next
  assume "\<exists>body v. map_of (fetch_page net 1 50) ''body'' = Some (JObj body)
            \<and> map_of body ''pages'' = Some v \<and> map_of body ''total'' = None"
  then obtain body v where "map_of (fetch_page net 1 50) ''body'' = Some (JObj body)"
    "map_of body ''pages'' = Some v" "map_of body ''total'' = None" by blast
  then show "fetch_all_packages net pkgs0 = Inl KeyError"
    by (rule fetch_all_packages_no_total)
qed

theorem first_page_failure_returns_nothing_witness:
  "registry_timeout 1 50 = Raised \<and> fetch_all_packages registry_timeout [] = Inr ([], [])"
proof -
  have h: "registry_timeout 1 50 = Raised" by (simp add: registry_timeout_def)
  from first_page_failure_returns_nothing[of registry_timeout "[]"] h
  have "fetch_all_packages registry_timeout [] = Inr ([], [])" by blast
  with h show ?thesis by (intro conjI)
qed

end
